theory Spec2Isabelle
  imports Main
begin

section \<open>Shape information (src/utils/ShapeInformation.js)\<close>

text \<open>
  The shape descriptors are the Flow types of the source.  A JavaScript object used as
  a dictionary (\<open>{ [string]: T }\<close>) is a partial map from its own keys; the value
  \<open>undefined\<close> is \<open>None\<close>.
\<close>

datatype ECMAScriptType =
  JsVoid | JsNull | JsBoolean | JsString | JsSymbol | JsNumber | JsObject | JsArray
  | JsFunction | JsIntegral

datatype ShapeDescriptor =
    ShapeDescriptorOfObject ECMAScriptType "string option"
      "(string \<times> ShapePropertyDescriptor) list"
  | ShapeDescriptorOfArray ECMAScriptType "string option" "ShapePropertyDescriptor option"
  | ShapeDescriptorOfLink ECMAScriptType "string option" string
  | ShapeDescriptorOfPrimitive ECMAScriptType "string option"
  | ShapeDescriptorOfEnum ECMAScriptType "string option"
and ShapePropertyDescriptor =
    ShapePropertyDescriptor (shape: ShapeDescriptor) (optional: bool)

type_synonym ShapeUniverse = "string \<Rightarrow> ShapeDescriptor option"

record ArgModel =
  arg_universe :: ShapeUniverse
  arguments :: "string \<Rightarrow> string option"

record ComponentModel =
  component_universe :: ShapeUniverse
  component_props :: string

text \<open>The fields \<open>_descriptor\<close>, \<open>_parentDescriptor\<close>, \<open>_parentKey\<close> and
  \<open>_universe\<close> of the class.\<close>

record ShapeInformation =
  si_descriptor :: ShapeDescriptor
  si_parentDescriptor :: "ShapeDescriptor option"
  si_parentKey :: "string option"
  si_universe :: ShapeUniverse

text \<open>
  \<open>_resolveLinksAndWrap\<close>: the \<open>while\<close> loop follows link descriptors through
  the universe and may run forever, so the function is partial: the result \<open>None\<close>
  is "does not return", \<open>Some None\<close> is the returned \<open>undefined\<close>, and
  \<open>Some (Some s)\<close> the returned \<open>new ShapeInformation(...)\<close>.
\<close>

partial_function (option) resolveLinksAndWrap ::
  "ShapeDescriptor option \<Rightarrow> ShapeDescriptor option \<Rightarrow> string option \<Rightarrow> ShapeUniverse
     \<Rightarrow> ShapeInformation option option" where
  "resolveLinksAndWrap descriptor parentDescription parentKey universe =
     (case descriptor of
        Some (ShapeDescriptorOfLink jsType graphQLType shapeName) \<Rightarrow>
          resolveLinksAndWrap (universe shapeName) parentDescription parentKey universe
      | Some d \<Rightarrow>
          Some (Some \<lparr>si_descriptor = d, si_parentDescriptor = parentDescription,
                       si_parentKey = parentKey, si_universe = universe\<rparr>)
      | None \<Rightarrow> Some None)"

definition arrayLengthProperty :: ShapePropertyDescriptor where
  "arrayLengthProperty =
     ShapePropertyDescriptor (ShapeDescriptorOfPrimitive JsIntegral None) False"

definition getInformationForProperty ::
  "ShapeInformation \<Rightarrow> string \<Rightarrow> ShapePropertyDescriptor option" where
  "getInformationForProperty this k =
     (case si_descriptor this of
        ShapeDescriptorOfObject _ _ properties \<Rightarrow> map_of properties k
      | ShapeDescriptorOfArray _ _ elementShape \<Rightarrow>
          (if k = ''length'' then Some arrayLengthProperty
           else if k = ''prototype'' then None
           else elementShape)
      | _ \<Rightarrow> None)"

definition getPropertyShape :: "ShapeInformation \<Rightarrow> string \<Rightarrow> ShapeInformation option option" where
  "getPropertyShape this k =
     (case getInformationForProperty this k of
        Some property \<Rightarrow>
          resolveLinksAndWrap (Some (shape property)) (Some (si_descriptor this)) (Some k)
            (si_universe this)
      | None \<Rightarrow> Some None)"

text \<open>
  \<open>model.universe[model.arguments[argname]]\<close>: a missing argument name is the
  property key \<open>undefined\<close>, which JavaScript converts to the string "undefined".
\<close>

definition createForArgument :: "ArgModel option \<Rightarrow> string \<Rightarrow> ShapeInformation option option" where
  "createForArgument model argname =
     (case model of
        Some m \<Rightarrow>
          resolveLinksAndWrap
            (arg_universe m (case arguments m argname of Some s \<Rightarrow> s | None \<Rightarrow> ''undefined''))
            None None (arg_universe m)
      | None \<Rightarrow> Some None)"

definition createForReactComponentProps ::
  "ComponentModel option \<Rightarrow> ShapeInformation option option" where
  "createForReactComponentProps model =
     (case model of
        Some m \<Rightarrow>
          resolveLinksAndWrap (component_universe m (component_props m)) None None
            (component_universe m)
      | None \<Rightarrow> Some None)"

text \<open>The chain of descriptors the loop visits: \<open>linkChain u n d\<close> is the value of the
  loop variable after \<open>n\<close> executions of the loop body started at \<open>d\<close>.\<close>

definition isLink :: "ShapeDescriptor option \<Rightarrow> bool" where
  "isLink d = (case d of Some (ShapeDescriptorOfLink _ _ _) \<Rightarrow> True | _ \<Rightarrow> False)"

definition followLink :: "ShapeUniverse \<Rightarrow> ShapeDescriptor option \<Rightarrow> ShapeDescriptor option" where
  "followLink u d =
     (case d of Some (ShapeDescriptorOfLink _ _ shapeName) \<Rightarrow> u shapeName | _ \<Rightarrow> d)"

fun linkChain :: "ShapeUniverse \<Rightarrow> nat \<Rightarrow> ShapeDescriptor option \<Rightarrow> ShapeDescriptor option" where
  "linkChain u 0 d = d"
| "linkChain u (Suc n) d = linkChain u n (followLink u d)"

section \<open>The join engine: data model\<close>

text \<open>
  The second source file is the class \<open>JoinImplementation\<close> with the module functions
  \<open>joinGenerators\<close>, \<open>joinArrays\<close>, \<open>joinArrayOfsMapEntries\<close> and
  \<open>joinArraysOfValues\<close>.  Every \<open>throw\<close> and every failed \<open>invariant\<close> of the
  source is a value \<open>Inl e\<close> of the result; \<open>Inr x\<close> is the returned \<open>x\<close>.
\<close>

subsection \<open>Errors and sequencing\<close>

datatype 'v error =
    InvariantViolation
      \<comment> \<open>\<open>invariant(cond)\<close> with a false condition: a fatal internal error\<close>
  | FatalError 'v
      \<comment> \<open>\<open>AbstractValue.reportIntrospectionError(v); throw new FatalError()\<close>\<close>
  | DanglingReference
      \<comment> \<open>an address that names no object of the store; no JavaScript reference is such\<close>
  | IllTyped
      \<comment> \<open>an array whose elements are not of the kind its Flow cast promises\<close>
  | Thrown string
      \<comment> \<open>an exception raised by an operation that is not part of these sources\<close>

definition andThen :: "'e + 'a \<Rightarrow> ('a \<Rightarrow> 'e + 'b) \<Rightarrow> 'e + 'b" where
  "andThen m f = (case m of Inl e \<Rightarrow> Inl e | Inr x \<Rightarrow> f x)"

text \<open>A \<open>for\<close> loop that builds an array; the first exception ends it.\<close>

fun traverse :: "('a \<Rightarrow> 'e + 'b) \<Rightarrow> 'a list \<Rightarrow> 'e + 'b list" where
  "traverse f [] = Inr []"
| "traverse f (x # xs) =
     andThen (f x) (\<lambda>y. andThen (traverse f xs) (\<lambda>ys. Inr (y # ys)))"

text \<open>A \<open>forEach\<close> over a list that threads a state; the first exception ends it.\<close>

fun forEach :: "('a \<Rightarrow> 's \<Rightarrow> 'e + 's) \<Rightarrow> 'a list \<Rightarrow> 's \<Rightarrow> 'e + 's" where
  "forEach f [] s = Inr s"
| "forEach f (x # xs) s = andThen (f x s) (forEach f xs)"

subsection \<open>Values, arrays of values, descriptors\<close>

text \<open>
  The type variable \<open>'v\<close> stands for references to \<open>Value\<close> objects: equality on
  \<open>'v\<close> is JavaScript's \<open>===\<close> on objects.  A value slot holds \<open>undefined\<close>
  (\<open>None\<close>), a \<open>Value\<close>, an array of values, or an array of map entries
  \<open>{ $Key, $Value }\<close>.
\<close>

datatype 'v MapEntry = MapEntry (Key: "'v option") (Value: "'v option")

datatype 'v jsarray = Values "'v list" | Entries "'v MapEntry list"

datatype 'v valueOrArray = Val 'v | Arr "'v jsarray"

text \<open>
  A property descriptor: the attribute fields of an ECMAScript property descriptor and
  the three fields \<open>joinCondition\<close>, \<open>descriptor1\<close>, \<open>descriptor2\<close> that the join
  engine writes.  An absent field is \<open>None\<close>; \<open>{}\<close> is \<open>emptyDescriptor\<close>.
\<close>

datatype 'v descriptor =
  Descriptor
    (writable: "bool option")
    (enumerable: "bool option")
    (configurable: "bool option")
    (dvalue: "'v valueOrArray option")
    (dget: "'v option")
    (dset: "'v option")
    (djoinCondition: "'v option")
    (descriptor1: "'v descriptor option")
    (descriptor2: "'v descriptor option")

definition emptyDescriptor :: "'v descriptor" where
  "emptyDescriptor = Descriptor None None None None None None None None None"

fun set_value :: "'v descriptor \<Rightarrow> 'v valueOrArray option \<Rightarrow> 'v descriptor" where
  "set_value (Descriptor w e c v g s j d1 d2) v' = Descriptor w e c v' g s j d1 d2"

fun set_joinCondition :: "'v descriptor \<Rightarrow> 'v option \<Rightarrow> 'v descriptor" where
  "set_joinCondition (Descriptor w e c v g s j d1 d2) j' = Descriptor w e c v g s j' d1 d2"

fun set_descriptor1 :: "'v descriptor \<Rightarrow> 'v descriptor option \<Rightarrow> 'v descriptor" where
  "set_descriptor1 (Descriptor w e c v g s j d1 d2) d' = Descriptor w e c v g s j d' d2"

fun set_descriptor2 :: "'v descriptor \<Rightarrow> 'v descriptor option \<Rightarrow> 'v descriptor" where
  "set_descriptor2 (Descriptor w e c v g s j d1 d2) d' = Descriptor w e c v g s j d1 d'"

text \<open>Modelled from the spec: \<open>cloneDescriptor\<close> (methods/index.js is not among the
  sources) returns a copy of the descriptor it is given ("cloned from the pre-fork
  descriptor"); a copy of a value is the value.\<close>

definition cloneDescriptor :: "'v descriptor option \<Rightarrow> 'v descriptor option" where
  "cloneDescriptor d = d"

subsection \<open>Completions\<close>

type_synonym addr = nat

datatype location = SourceLocation nat nat

text \<open>
  The completion classes, each with the fields its constructor receives; the field
  \<open>effects\<close> is the address of the \<open>Effects\<close> object the completion is the result
  of.  A \<open>Reference\<close> is no completion but can be an evaluation result, and then
  the result of an \<open>Effects\<close> object, which it names in its field \<open>effects\<close> as
  a completion does.
  \<open>SimpleNormalCompletion\<close> and \<open>PossiblyNormalCompletion\<close> are the
  \<open>NormalCompletion\<close>s; \<open>Break\<close>, \<open>Continue\<close>, \<open>Return\<close>, \<open>Throw\<close> and
  \<open>ForkedAbruptCompletion\<close> are the \<open>AbruptCompletion\<close>s.
\<close>

datatype 'v completion =
    SimpleNormalCompletion 'v "addr option"
      \<comment> \<open>value, effects\<close>
  | PossiblyNormalCompletion 'v 'v "'v completion" "'v completion" "'v list" "addr option"
      "addr option"
      \<comment> \<open>value, joinCondition, consequent, alternate, savedPathConditions, savedEffects,
          effects\<close>
  | BreakCompletion 'v "addr option" "location option" "string option"
      \<comment> \<open>value, effects, location, target\<close>
  | ContinueCompletion 'v "addr option" "location option" "string option"
  | ReturnCompletion 'v "addr option" "location option"
  | ThrowCompletion 'v "addr option" "location option"
  | ForkedAbruptCompletion 'v "'v completion" "'v completion" "addr option"
      \<comment> \<open>joinCondition, consequent, alternate, effects\<close>
  | Reference "addr option"
      \<comment> \<open>effects\<close>

fun isAbruptCompletion :: "'v completion \<Rightarrow> bool" where
  "isAbruptCompletion (BreakCompletion _ _ _ _) = True"
| "isAbruptCompletion (ContinueCompletion _ _ _ _) = True"
| "isAbruptCompletion (ReturnCompletion _ _ _) = True"
| "isAbruptCompletion (ThrowCompletion _ _ _) = True"
| "isAbruptCompletion (ForkedAbruptCompletion _ _ _ _) = True"
| "isAbruptCompletion _ = False"

fun isSimpleNormalCompletion :: "'v completion \<Rightarrow> bool" where
  "isSimpleNormalCompletion (SimpleNormalCompletion _ _) = True"
| "isSimpleNormalCompletion _ = False"

fun isPossiblyNormalCompletion :: "'v completion \<Rightarrow> bool" where
  "isPossiblyNormalCompletion (PossiblyNormalCompletion _ _ _ _ _ _ _) = True"
| "isPossiblyNormalCompletion _ = False"

fun isReference :: "'v completion \<Rightarrow> bool" where
  "isReference (Reference _) = True"
| "isReference _ = False"

definition isNormalCompletion :: "'v completion \<Rightarrow> bool" where
  "isNormalCompletion c = (isSimpleNormalCompletion c \<or> isPossiblyNormalCompletion c)"

text \<open>The field \<open>effects\<close> of an evaluation result.\<close>

fun c_effects :: "'v completion \<Rightarrow> addr option" where
  "c_effects (SimpleNormalCompletion _ e) = e"
| "c_effects (PossiblyNormalCompletion _ _ _ _ _ _ e) = e"
| "c_effects (BreakCompletion _ e _ _) = e"
| "c_effects (ContinueCompletion _ e _ _) = e"
| "c_effects (ReturnCompletion _ e _) = e"
| "c_effects (ThrowCompletion _ e _) = e"
| "c_effects (ForkedAbruptCompletion _ _ _ e) = e"
| "c_effects (Reference e) = e"

fun set_effects :: "'v completion \<Rightarrow> addr option \<Rightarrow> 'v completion" where
  "set_effects (SimpleNormalCompletion v _) e = SimpleNormalCompletion v e"
| "set_effects (PossiblyNormalCompletion v j c a p s _) e = PossiblyNormalCompletion v j c a p s e"
| "set_effects (BreakCompletion v _ l t) e = BreakCompletion v e l t"
| "set_effects (ContinueCompletion v _ l t) e = ContinueCompletion v e l t"
| "set_effects (ReturnCompletion v _ l) e = ReturnCompletion v e l"
| "set_effects (ThrowCompletion v _ l) e = ThrowCompletion v e l"
| "set_effects (ForkedAbruptCompletion j c a _) e = ForkedAbruptCompletion j c a e"
| "set_effects (Reference _) e = Reference e"

text \<open>The field \<open>value\<close> of the completions that store one.\<close>

fun c_value :: "'v completion \<Rightarrow> 'v option" where
  "c_value (SimpleNormalCompletion v _) = Some v"
| "c_value (PossiblyNormalCompletion v _ _ _ _ _ _) = Some v"
| "c_value (BreakCompletion v _ _ _) = Some v"
| "c_value (ContinueCompletion v _ _ _) = Some v"
| "c_value (ReturnCompletion v _ _) = Some v"
| "c_value (ThrowCompletion v _ _) = Some v"
| "c_value _ = None"

fun set_c_value :: "'v completion \<Rightarrow> 'v \<Rightarrow> 'v completion" where
  "set_c_value (SimpleNormalCompletion _ e) v = SimpleNormalCompletion v e"
| "set_c_value (PossiblyNormalCompletion _ j c a p s e) v = PossiblyNormalCompletion v j c a p s e"
| "set_c_value (BreakCompletion _ e l t) v = BreakCompletion v e l t"
| "set_c_value (ContinueCompletion _ e l t) v = ContinueCompletion v e l t"
| "set_c_value (ReturnCompletion _ e l) v = ReturnCompletion v e l"
| "set_c_value (ThrowCompletion _ e l) v = ThrowCompletion v e l"
| "set_c_value c v = c"

subsection \<open>The realm and the imported operations\<close>

text \<open>
  The \<open>realm\<close> argument of every function, together with the operations the file imports
  from modules that are not among the sources (values/index.js, methods/index.js,
  completions.js).  Each is a parameter: the functions below are defined for every
  value model.  \<open>instanceofAbstractValue v\<close> is \<open>v instanceof AbstractValue\<close>,
  \<open>instanceofEmptyValue v\<close> is \<open>v instanceof EmptyValue\<close>; the abstraction
  \<open>AbstractValue.createFromConditionalOp\<close> may raise.
\<close>

record 'v realm =
  intrinsics_empty :: 'v
  intrinsics_undefined :: 'v
  pathConditions :: "'v list"
  instanceofAbstractValue :: "'v \<Rightarrow> bool"
  instanceofEmptyValue :: "'v \<Rightarrow> bool"
  mightNotBeTrue :: "'v \<Rightarrow> bool"
  mightNotBeFalse :: "'v \<Rightarrow> bool"
  expressionLocation :: "'v \<Rightarrow> location option"
  StrictEqualityComparison :: "'v \<Rightarrow> 'v \<Rightarrow> bool"
  createFromConditionalOp :: "'v \<Rightarrow> 'v option \<Rightarrow> 'v option \<Rightarrow> 'v error + 'v"
  IsDataDescriptor :: "'v descriptor \<Rightarrow> bool"
  equalDescriptors :: "'v descriptor \<Rightarrow> 'v descriptor \<Rightarrow> bool"
  getNormalCompletion :: "'v completion \<Rightarrow> 'v error + 'v completion"

subsection \<open>Bindings, generators, effects and the store\<close>

text \<open>
  A JavaScript \<open>Map\<close> is the list of its entries in insertion order, each key once; a
  stored \<open>undefined\<close> is \<open>None\<close>.  \<open>get\<close> answers \<open>undefined\<close> for a missing key
  and for a key that stores \<open>undefined\<close>; \<open>has\<close> tells them apart.
\<close>

type_synonym ('k, 'a) jsmap = "('k \<times> 'a option) list"

definition mapGet :: "('k, 'a) jsmap \<Rightarrow> 'k \<Rightarrow> 'a option" where
  "mapGet m k = (case map_of m k of Some x \<Rightarrow> x | None \<Rightarrow> None)"

definition mapHas :: "('k, 'a) jsmap \<Rightarrow> 'k \<Rightarrow> bool" where
  "mapHas m k = (k \<in> set (map fst m))"

fun mapSet :: "('k, 'a) jsmap \<Rightarrow> 'k \<Rightarrow> 'a option \<Rightarrow> ('k, 'a) jsmap" where
  "mapSet [] k v = [(k, v)]"
| "mapSet ((k', v') # m) k v = (if k' = k then (k, v) # m else (k', v') # mapSet m k v)"

record 'v Binding =
  binding_name :: string
  binding_hasLeaked :: bool
  binding_value :: "'v option"

record 'v BindingEntry =
  hasLeaked :: bool
  entryValue :: "'v option"
  previousHasLeaked :: "bool option"
  previousValue :: "'v option"

record 'v PropertyBinding =
  pb_object :: 'v
  pb_key :: string
  pb_descriptor :: "'v descriptor option"

type_synonym 'v Bindings = "('v Binding, 'v BindingEntry) jsmap"
type_synonym 'v PropertyBindings = "('v PropertyBinding, 'v descriptor) jsmap"

text \<open>
  Modelled from the spec: the class \<open>Generator\<close> (utils/generator.js is not among the
  sources) is "an append-only log of residual operations" with "the path conditions
  active at the time of its creation"; it "supports emptiness check, appending another
  generator's entries, and recording a variable-assignment entry", and
  \<open>joinGenerators\<close> records "a conditional-residual-block entry".  Generators are
  objects of the store, named by their address.
\<close>

datatype 'v GeneratorEntry =
    BindingAssignment "'v Binding" 'v
  | ConditionalBlock 'v addr addr
  | ResidualOperation nat

record 'v Generator =
  g_name :: string
  g_pathConditions :: "'v list"
  g_entries :: "'v GeneratorEntry list"

record 'v Effects =
  result :: "'v completion"
  generator :: addr
  modifiedBindings :: "'v Bindings"
  modifiedProperties :: "'v PropertyBindings"
  createdObjects :: "'v set"

record 'v heap =
  effectsStore :: "'v Effects list"
  generatorStore :: "'v Generator list"

text \<open>Reading the object at an address of the store.\<close>

definition lookupEffects :: "'v heap \<Rightarrow> addr \<Rightarrow> 'v error + 'v Effects" where
  "lookupEffects h a =
     (if a < length (effectsStore h) then Inr (effectsStore h ! a) else Inl DanglingReference)"

definition lookupGenerator :: "'v heap \<Rightarrow> addr \<Rightarrow> 'v error + 'v Generator" where
  "lookupGenerator h a =
     (if a < length (generatorStore h) then Inr (generatorStore h ! a)
      else Inl DanglingReference)"

section \<open>The join engine: operations\<close>

subsection \<open>Generators\<close>

text \<open>Modelled from the spec: \<open>new Generator(realm, name, pathConditions)\<close> is a new,
  empty generator; \<open>empty()\<close> is the emptiness check; \<open>appendGenerator\<close> appends the
  other generator's entries; \<open>emitBindingAssignment\<close> records an assignment entry; the
  method \<open>joinGenerators\<close> records a conditional-block entry that names the two
  generators.\<close>

definition newGenerator :: "'v heap \<Rightarrow> string \<Rightarrow> 'v list \<Rightarrow> addr \<times> 'v heap" where
  "newGenerator h name pcs =
     (length (generatorStore h),
      h\<lparr>generatorStore := generatorStore h @
          [\<lparr>g_name = name, g_pathConditions = pcs, g_entries = []\<rparr>]\<rparr>)"

definition generatorEmpty :: "'v Generator \<Rightarrow> bool" where
  "generatorEmpty g = (g_entries g = [])"

definition addEntries :: "'v heap \<Rightarrow> addr \<Rightarrow> 'v GeneratorEntry list \<Rightarrow> 'v error + 'v heap" where
  "addEntries h g es =
     andThen (lookupGenerator h g) (\<lambda>G.
       Inr (h\<lparr>generatorStore := (generatorStore h)[g := G\<lparr>g_entries := g_entries G @ es\<rparr>]\<rparr>))"

definition appendGenerator :: "'v heap \<Rightarrow> addr \<Rightarrow> addr \<Rightarrow> 'v error + 'v heap" where
  "appendGenerator h this other =
     andThen (lookupGenerator h other) (\<lambda>G. addEntries h this (g_entries G))"

definition emitBindingAssignment ::
  "'v heap \<Rightarrow> addr \<Rightarrow> 'v Binding \<Rightarrow> 'v \<Rightarrow> 'v error + 'v heap" where
  "emitBindingAssignment h this b v = addEntries h this [BindingAssignment b v]"

definition generator_joinGenerators ::
  "'v heap \<Rightarrow> addr \<Rightarrow> 'v \<Rightarrow> addr \<Rightarrow> addr \<Rightarrow> 'v error + 'v heap" where
  "generator_joinGenerators h this joinCondition generator1 generator2 =
     addEntries h this [ConditionalBlock joinCondition generator1 generator2]"

text \<open>The module function \<open>joinGenerators\<close>.\<close>

definition joinGenerators ::
  "'v realm \<Rightarrow> 'v \<Rightarrow> addr \<Rightarrow> addr \<Rightarrow> 'v heap \<Rightarrow> 'v error + (addr \<times> 'v heap)" where
  "joinGenerators R joinCondition generator1 generator2 h =
     (let (res, h1) = newGenerator h ''joined'' (pathConditions R) in
      andThen (lookupGenerator h1 generator1) (\<lambda>G1.
      andThen (lookupGenerator h1 generator2) (\<lambda>G2.
        if \<not> generatorEmpty G1 \<or> \<not> generatorEmpty G2
        then andThen (generator_joinGenerators h1 res joinCondition generator1 generator2)
               (\<lambda>h2. Inr (res, h2))
        else Inr (res, h1))))"

subsection \<open>Joining arrays and values\<close>

text \<open>\<open>(a && a.length) || 0\<close> and \<open>(a && a[i]) || undefined\<close>: every element of
  these arrays is an object, hence truthy.\<close>

definition arrayLength :: "'a list option \<Rightarrow> nat" where
  "arrayLength a = (case a of Some xs \<Rightarrow> length xs | None \<Rightarrow> 0)"

definition elementAt :: "'a list option \<Rightarrow> nat \<Rightarrow> 'a option" where
  "elementAt a i =
     (case a of Some xs \<Rightarrow> (if i < length xs then Some (xs ! i) else None) | None \<Rightarrow> None)"

definition joinArrayOfsMapEntries ::
  "'v realm \<Rightarrow> 'v MapEntry list option \<Rightarrow> 'v MapEntry list option
     \<Rightarrow> ('v option \<Rightarrow> 'v option \<Rightarrow> 'v error + 'v) \<Rightarrow> 'v error + 'v MapEntry list" where
  "joinArrayOfsMapEntries R a1 a2 getAbstractValue =
     (let empty = intrinsics_empty R;
          n = max (arrayLength a1) (arrayLength a2)
      in traverse (\<lambda>i.
           let (key1, val1) = (case elementAt a1 i of Some e \<Rightarrow> (Key e, Value e)
                               | None \<Rightarrow> (Some empty, Some empty));
               (key2, val2) = (case elementAt a2 i of Some e \<Rightarrow> (Key e, Value e)
                               | None \<Rightarrow> (Some empty, Some empty))
           in if key1 = None \<and> key2 = None then Inr (MapEntry None None)
              else andThen (getAbstractValue key1 key2) (\<lambda>key3.
                   andThen (getAbstractValue val1 val2) (\<lambda>val3.
                     Inr (MapEntry (Some key3) (Some val3)))))
         [0..<n])"

definition joinArraysOfValues ::
  "'v realm \<Rightarrow> 'v list option \<Rightarrow> 'v list option
     \<Rightarrow> ('v option \<Rightarrow> 'v option \<Rightarrow> 'v error + 'v) \<Rightarrow> 'v error + 'v list" where
  "joinArraysOfValues R a1 a2 getAbstractValue =
     (let n = max (arrayLength a1) (arrayLength a2)
      in traverse (\<lambda>i. getAbstractValue (elementAt a1 i) (elementAt a2 i)) [0..<n])"

text \<open>\<open>v && v[0]\<close>: the first element, a \<open>Value\<close> or a map entry, when there is one.\<close>

fun firstElement :: "'v jsarray option \<Rightarrow> ('v + 'v MapEntry) option" where
  "firstElement (Some (Values (x # xs))) = Some (Inl x)"
| "firstElement (Some (Entries (e # es))) = Some (Inr e)"
| "firstElement _ = None"

text \<open>The casts \<open>(v: any)\<close> to the parameter types of the two callees.  An empty array
  is an array of either kind; a non-empty array of the other kind is outside the
  callee's Flow type and is reported as \<open>IllTyped\<close>.\<close>

fun asValues :: "'v jsarray option \<Rightarrow> 'v error + 'v list option" where
  "asValues None = Inr None"
| "asValues (Some (Values xs)) = Inr (Some xs)"
| "asValues (Some (Entries [])) = Inr (Some [])"
| "asValues (Some (Entries (e # es))) = Inl IllTyped"

fun asEntries :: "'v jsarray option \<Rightarrow> 'v error + 'v MapEntry list option" where
  "asEntries None = Inr None"
| "asEntries (Some (Entries es)) = Inr (Some es)"
| "asEntries (Some (Values [])) = Inr (Some [])"
| "asEntries (Some (Values (x # xs))) = Inl IllTyped"

definition joinArrays ::
  "'v realm \<Rightarrow> 'v jsarray option \<Rightarrow> 'v jsarray option
     \<Rightarrow> ('v option \<Rightarrow> 'v option \<Rightarrow> 'v error + 'v) \<Rightarrow> 'v error + 'v jsarray" where
  "joinArrays R v1 v2 getAbstractValue =
     (let e = (case firstElement v1 of Some x \<Rightarrow> Some x | None \<Rightarrow> firstElement v2)
      in if (case e of Some (Inl x) \<Rightarrow> True | _ \<Rightarrow> False)
         then andThen (asValues v1) (\<lambda>a1. andThen (asValues v2) (\<lambda>a2.
                andThen (joinArraysOfValues R a1 a2 getAbstractValue) (\<lambda>r. Inr (Values r))))
         else andThen (asEntries v1) (\<lambda>a1. andThen (asEntries v2) (\<lambda>a2.
                andThen (joinArrayOfsMapEntries R a1 a2 getAbstractValue)
                  (\<lambda>r. Inr (Entries r)))))"

fun isArray :: "'v valueOrArray option \<Rightarrow> bool" where
  "isArray (Some (Arr a)) = True"
| "isArray _ = False"

fun asArray :: "'v valueOrArray option \<Rightarrow> 'v jsarray option" where
  "asArray (Some (Arr a)) = Some a"
| "asArray _ = None"

fun asValue :: "'v valueOrArray option \<Rightarrow> 'v option" where
  "asValue (Some (Val v)) = Some v"
| "asValue _ = None"

text \<open>
  \<open>joinValues\<close>.  In the second branch both arguments are \<open>undefined\<close> or a
  \<open>Value\<close>, which is what the two invariants there assert; \<open>throwIfNotConcrete\<close>
  returns its receiver, which is not an \<open>AbstractValue\<close>.
\<close>

definition joinValues ::
  "'v realm \<Rightarrow> 'v valueOrArray option \<Rightarrow> 'v valueOrArray option
     \<Rightarrow> ('v option \<Rightarrow> 'v option \<Rightarrow> 'v error + 'v) \<Rightarrow> 'v error + 'v valueOrArray" where
  "joinValues R v1 v2 getAbstractValue =
     (if isArray v1 \<or> isArray v2 then
        if \<not> (v1 = None \<or> isArray v1) then Inl InvariantViolation
        else if \<not> (v2 = None \<or> isArray v2) then Inl InvariantViolation
        else andThen (joinArrays R (asArray v1) (asArray v2) getAbstractValue)
               (\<lambda>a. Inr (Arr a))
      else
        (case (asValue v1, asValue v2) of
           (Some x, Some y) \<Rightarrow>
             if \<not> instanceofAbstractValue R x \<and> \<not> instanceofAbstractValue R y
                \<and> StrictEqualityComparison R x y
             then Inr (Val x)
             else andThen (getAbstractValue (Some x) (Some y)) (\<lambda>v. Inr (Val v))
         | (a, b) \<Rightarrow> andThen (getAbstractValue a b) (\<lambda>v. Inr (Val v))))"

text \<open>\<open>invariant(val instanceof Value)\<close> on a result of \<open>joinValues\<close>.\<close>

definition requireValue :: "'v valueOrArray \<Rightarrow> 'v error + 'v" where
  "requireValue r = (case r of Val v \<Rightarrow> Inr v | Arr a \<Rightarrow> Inl InvariantViolation)"

text \<open>The two closures \<open>getAbstractValue\<close> of the source: the plain conditional, and
  the one of \<open>joinNormalCompletions\<close> and \<open>collapseResults\<close> that lets an
  \<open>EmptyValue\<close> side give way to the other side (\<open>v || realm.intrinsics.undefined\<close>).\<close>

definition getAbstractValue_conditional ::
  "'v realm \<Rightarrow> 'v \<Rightarrow> 'v option \<Rightarrow> 'v option \<Rightarrow> 'v error + 'v" where
  "getAbstractValue_conditional R joinCondition v1 v2 =
     createFromConditionalOp R joinCondition v1 v2"

definition getAbstractValue_orEmpty ::
  "'v realm \<Rightarrow> 'v \<Rightarrow> 'v option \<Rightarrow> 'v option \<Rightarrow> 'v error + 'v" where
  "getAbstractValue_orEmpty R joinCondition v1 v2 =
     (if (case v1 of Some x \<Rightarrow> instanceofEmptyValue R x | None \<Rightarrow> False)
      then Inr (case v2 of Some y \<Rightarrow> y | None \<Rightarrow> intrinsics_undefined R)
      else if (case v2 of Some y \<Rightarrow> instanceofEmptyValue R y | None \<Rightarrow> False)
      then Inr (case v1 of Some x \<Rightarrow> x | None \<Rightarrow> intrinsics_undefined R)
      else createFromConditionalOp R joinCondition v1 v2)"

subsection \<open>Joining maps\<close>

text \<open>
  \<open>joinMaps\<close>.  The callback \<open>join\<close> of the source may assign to variables of its
  enclosing function (as the one of \<open>joinBindings\<close> does) and may throw: it takes and
  returns a state \<open>'s\<close>.
\<close>

definition joinMaps ::
  "('k, 'a) jsmap \<Rightarrow> ('k, 'a) jsmap
     \<Rightarrow> ('k \<Rightarrow> 'a option \<Rightarrow> 'a option \<Rightarrow> 's \<Rightarrow> 'e + ('a option \<times> 's))
     \<Rightarrow> 's \<Rightarrow> 'e + (('k, 'a) jsmap \<times> 's)" where
  "joinMaps m1 m2 join s =
     andThen
       (forEach (\<lambda>(key, val1) (m3, s).
            let val2 = mapGet m2 key in
            andThen (join key val1 val2 s) (\<lambda>(val3, s'). Inr (mapSet m3 key val3, s')))
          m1 ([], s))
       (forEach (\<lambda>(key, val2) (m3, s).
            if \<not> mapHas m1 key
            then andThen (join key None val2 s) (\<lambda>(val3, s'). Inr (mapSet m3 key val3, s'))
            else Inr (m3, s))
          m2)"

text \<open>A callback that neither assigns nor throws.\<close>

definition pureJoin ::
  "('k \<Rightarrow> 'a option \<Rightarrow> 'a option \<Rightarrow> 'a option)
     \<Rightarrow> 'k \<Rightarrow> 'a option \<Rightarrow> 'a option \<Rightarrow> unit \<Rightarrow> 'e + ('a option \<times> unit)" where
  "pureJoin f key a b s = Inr (f key a b, s)"

subsection \<open>Joining bindings\<close>

text \<open>
  The closure \<open>leak\<close> of \<open>joinBindings\<close>: \<open>g\<close> and \<open>rewritten\<close> are its parameters
  and results; the generators it creates and writes live in the store (\<open>wrapper\<close> is
  the source's new generator \<open>h\<close>).
\<close>

definition joinBindings_leak ::
  "'v realm \<Rightarrow> 'v Binding \<Rightarrow> addr \<Rightarrow> 'v option \<Rightarrow> bool \<Rightarrow> 'v heap
     \<Rightarrow> 'v error + ((addr \<times> bool) \<times> 'v heap)" where
  "joinBindings_leak R b g v rewritten h =
     andThen
       (if \<not> rewritten then
          andThen (lookupGenerator h g) (\<lambda>G.
            let (wrapper, h1) = newGenerator h ''RewrittenToAppendBindingAssignments''
                                  (g_pathConditions G)
            in andThen (if \<not> generatorEmpty G then appendGenerator h1 wrapper g else Inr h1)
                 (\<lambda>h2. Inr (wrapper, True, h2)))
        else Inr (g, rewritten, h))
       (\<lambda>(g, rewritten, h).
          case v of
            Some x \<Rightarrow>
              if x \<noteq> intrinsics_undefined R
              then andThen (emitBindingAssignment h g b x) (\<lambda>h'. Inr ((g, rewritten), h'))
              else Inr ((g, rewritten), h)
          | None \<Rightarrow> Inr ((g, rewritten), h))"

text \<open>
  The closure \<open>join\<close> of \<open>joinBindings\<close>.  Its state is the variables \<open>g1\<close>,
  \<open>rewritten1\<close>, \<open>g2\<close>, \<open>rewritten2\<close> of the enclosing call, and the store.
\<close>

type_synonym 'v leakState = "addr \<times> bool \<times> addr \<times> bool \<times> 'v heap"

definition joinBindings_join ::
  "'v realm \<Rightarrow> 'v \<Rightarrow> 'v Binding \<Rightarrow> 'v BindingEntry option \<Rightarrow> 'v BindingEntry option
     \<Rightarrow> 'v leakState \<Rightarrow> 'v error + ('v BindingEntry option \<times> 'v leakState)" where
  "joinBindings_join R joinCondition b b1 b2 st =
     (case st of (g1, rewritten1, g2, rewritten2, h) \<Rightarrow>
      let l1 = (case b1 of None \<Rightarrow> binding_hasLeaked b | Some e \<Rightarrow> hasLeaked e);
          l2 = (case b2 of None \<Rightarrow> binding_hasLeaked b | Some e \<Rightarrow> hasLeaked e);
          v1 = (case b1 of None \<Rightarrow> binding_value b | Some e \<Rightarrow> entryValue e);
          v2 = (case b2 of None \<Rightarrow> binding_value b | Some e \<Rightarrow> entryValue e)
      in
      andThen
        (if \<not> l1 \<and> l2 then
           andThen (joinBindings_leak R b g1 v1 rewritten1 h)
             (\<lambda>((g1', rewritten1'), h'). Inr (g1', rewritten1', g2, rewritten2, h'))
         else if l1 \<and> \<not> l2 then
           andThen (joinBindings_leak R b g2 v2 rewritten2 h)
             (\<lambda>((g2', rewritten2'), h'). Inr (g1, rewritten1, g2', rewritten2', h'))
         else Inr (g1, rewritten1, g2, rewritten2, h))
        (\<lambda>st'.
      let leaked = l1 \<or> l2 in
      andThen
        (if leaked then Inr None
         else andThen (joinValues R (map_option Val v1) (map_option Val v2)
                         (getAbstractValue_conditional R joinCondition))
                (\<lambda>r. case r of Val v \<Rightarrow> Inr (Some v) | Arr a \<Rightarrow> Inl InvariantViolation))
        (\<lambda>joined.
      andThen
        (case b1 of
           Some e1 \<Rightarrow>
             (case b2 of
                None \<Rightarrow> Inr (previousHasLeaked e1, previousValue e1)
              | Some e2 \<Rightarrow>
                  if previousHasLeaked e1 = previousHasLeaked e2
                     \<and> previousValue e1 = previousValue e2
                  then Inr (previousHasLeaked e1, previousValue e1)
                  else Inl InvariantViolation)
         | None \<Rightarrow>
             (case b2 of
                Some e2 \<Rightarrow> Inr (previousHasLeaked e2, previousValue e2)
              | None \<Rightarrow> Inr (None, None)))
        (\<lambda>(previousHasLeaked', previousValue').
      Inr (Some \<lparr>hasLeaked = leaked, entryValue = joined,
                  previousHasLeaked = previousHasLeaked',
                  previousValue = previousValue'\<rparr>, st')))))"

definition joinBindings ::
  "'v realm \<Rightarrow> 'v \<Rightarrow> addr \<Rightarrow> 'v Bindings \<Rightarrow> addr \<Rightarrow> 'v Bindings \<Rightarrow> 'v heap
     \<Rightarrow> 'v error + ((addr \<times> addr \<times> 'v Bindings) \<times> 'v heap)" where
  "joinBindings R joinCondition g1 m1 g2 m2 h =
     andThen (joinMaps m1 m2 (joinBindings_join R joinCondition) (g1, False, g2, False, h))
       (\<lambda>(joinedBindings, (g1', rewritten1, g2', rewritten2, h')).
          Inr ((g1', g2', joinedBindings), h'))"

subsection \<open>Joining property bindings and descriptors\<close>

text \<open>
  The closure \<open>clone_with_abstract_value\<close> of \<open>joinDescriptors\<close>; \<open>d1\<close> and
  \<open>d2\<close> are the arguments of the enclosing call.  It is called on the one of them that
  is defined while the other is \<open>undefined\<close>, so \<open>d === d1\<close> is \<open>Some d = d1\<close>.
\<close>

definition clone_with_abstract_value ::
  "'v realm \<Rightarrow> 'v \<Rightarrow> 'v descriptor option \<Rightarrow> 'v descriptor option \<Rightarrow> 'v descriptor
     \<Rightarrow> 'v error + 'v descriptor" where
  "clone_with_abstract_value R joinCondition d1 d2 d =
     (let getAbstractValue = getAbstractValue_conditional R joinCondition;
          empty = intrinsics_empty R
      in
      if \<not> (Some d = d1 \<or> Some d = d2) then Inl InvariantViolation
      else if \<not> IsDataDescriptor R d then
        Inr (set_joinCondition emptyDescriptor (Some joinCondition))
      else
        (case cloneDescriptor (Some d) of
           None \<Rightarrow> Inl InvariantViolation
         | Some dc \<Rightarrow>
             (case dvalue dc of
                Some (Arr (Values [])) \<Rightarrow> Inl InvariantViolation
              | Some (Arr (Entries [])) \<Rightarrow> Inl InvariantViolation
              | Some (Arr (Values (elem0 # rest))) \<Rightarrow>
                  andThen
                    (traverse (\<lambda>e. if Some d = d1 then getAbstractValue (Some e) (Some empty)
                                    else getAbstractValue (Some empty) (Some e))
                       (elem0 # rest))
                    (\<lambda>vs. Inr (set_value dc (Some (Arr (Values vs)))))
              | Some (Arr (Entries (elem0 # rest))) \<Rightarrow>
                  andThen
                    (traverse (\<lambda>e.
                         let key1 = Key e; val1 = Value e in
                         andThen (if Some d = d1 then getAbstractValue key1 (Some empty)
                                  else getAbstractValue (Some empty) key1) (\<lambda>key3.
                         andThen (if Some d = d1 then getAbstractValue val1 (Some empty)
                                  else getAbstractValue (Some empty) val1) (\<lambda>val3.
                           Inr (MapEntry (Some key3) (Some val3)))))
                       (elem0 # rest))
                    (\<lambda>es. Inr (set_value dc (Some (Arr (Entries es)))))
              | dcValue \<Rightarrow>
                  andThen (if Some d = d1 then getAbstractValue (asValue dcValue) (Some empty)
                           else getAbstractValue (Some empty) (asValue dcValue))
                    (\<lambda>v. Inr (set_value dc (Some (Val v)))))))"

definition joinDescriptors ::
  "'v realm \<Rightarrow> 'v \<Rightarrow> 'v descriptor option \<Rightarrow> 'v descriptor option
     \<Rightarrow> 'v error + 'v descriptor option" where
  "joinDescriptors R joinCondition d1 d2 =
     (case d1 of
        None \<Rightarrow>
          (case d2 of
             None \<Rightarrow> Inr None
           | Some d2' \<Rightarrow>
               andThen (clone_with_abstract_value R joinCondition d1 d2 d2') (\<lambda>d3.
                 Inr (Some (if \<not> IsDataDescriptor R d2' then set_descriptor2 d3 (Some d2')
                            else d3))))
      | Some d1' \<Rightarrow>
          (case d2 of
             None \<Rightarrow>
               andThen (clone_with_abstract_value R joinCondition d1 d2 d1') (\<lambda>d3.
                 Inr (Some (if \<not> IsDataDescriptor R d1' then set_descriptor1 d3 (Some d1')
                            else d3)))
           | Some d2' \<Rightarrow>
               if equalDescriptors R d1' d2' \<and> IsDataDescriptor R d1' then
                 (case cloneDescriptor (Some d1') of
                    None \<Rightarrow> Inl InvariantViolation
                  | Some dc \<Rightarrow>
                      andThen (joinValues R (dvalue d1') (dvalue d2')
                                 (getAbstractValue_conditional R joinCondition))
                        (\<lambda>v. Inr (Some (set_value dc (Some v)))))
               else
                 Inr (Some (set_descriptor2
                       (set_descriptor1
                          (set_joinCondition emptyDescriptor (Some joinCondition))
                          (Some d1'))
                       (Some d2')))))"

text \<open>
  The descriptor that \<open>joinPropertyBindings\<close> builds for a deleted property:
  \<open>d = cloneDescriptor(b.descriptor); invariant(d !== undefined);
  d.value = realm.intrinsics.empty\<close>.
\<close>

definition deletedDescriptor ::
  "'v realm \<Rightarrow> 'v PropertyBinding \<Rightarrow> 'v error + 'v descriptor option" where
  "deletedDescriptor R b =
     (case cloneDescriptor (pb_descriptor b) of
        None \<Rightarrow> Inl InvariantViolation
      | Some d \<Rightarrow> Inr (Some (set_value d (Some (Val (intrinsics_empty R))))))"

text \<open>The closure \<open>join\<close> of \<open>joinPropertyBindings\<close>; \<open>d1'\<close> and \<open>d2'\<close> are
  \<open>d1\<close> and \<open>d2\<close> after the assignments of the two \<open>if\<close> blocks.\<close>

definition joinPropertyBindings_join ::
  "'v realm \<Rightarrow> 'v \<Rightarrow> 'v PropertyBindings \<Rightarrow> 'v PropertyBindings \<Rightarrow> 'v set \<Rightarrow> 'v set
     \<Rightarrow> 'v PropertyBinding \<Rightarrow> 'v descriptor option \<Rightarrow> 'v descriptor option
     \<Rightarrow> 'v error + 'v descriptor option" where
  "joinPropertyBindings_join R joinCondition m1 m2 c1 c2 b d1 d2 =
     (if d1 = None \<and> pb_object b \<in> c2 then Inr d2
      else
        andThen
          (if d1 = None then
             (if pb_descriptor b \<noteq> None \<and> mapHas m1 b then deletedDescriptor R b
              else Inr (pb_descriptor b))
           else Inr d1)
          (\<lambda>d1'.
        if d2 = None \<and> pb_object b \<in> c1 then Inr d1'
        else
          andThen
            (if d2 = None then
               (if pb_descriptor b \<noteq> None \<and> mapHas m2 b then deletedDescriptor R b
                else Inr (pb_descriptor b))
             else Inr d2)
            (\<lambda>d2'. joinDescriptors R joinCondition d1' d2')))"

definition joinPropertyBindings ::
  "'v realm \<Rightarrow> 'v \<Rightarrow> 'v PropertyBindings \<Rightarrow> 'v PropertyBindings \<Rightarrow> 'v set \<Rightarrow> 'v set
     \<Rightarrow> 'v error + 'v PropertyBindings" where
  "joinPropertyBindings R joinCondition m1 m2 c1 c2 =
     andThen
       (joinMaps m1 m2
          (\<lambda>b d1 d2 s. andThen (joinPropertyBindings_join R joinCondition m1 m2 c1 c2 b d1 d2)
                          (\<lambda>d. Inr (d, s)))
          ())
       (\<lambda>(m3, s). Inr m3)"

subsection \<open>Joining results\<close>

fun isBreakCompletion :: "'v completion \<Rightarrow> bool" where
  "isBreakCompletion (BreakCompletion _ _ _ _) = True"
| "isBreakCompletion _ = False"

fun isContinueCompletion :: "'v completion \<Rightarrow> bool" where
  "isContinueCompletion (ContinueCompletion _ _ _ _) = True"
| "isContinueCompletion _ = False"

fun isReturnCompletion :: "'v completion \<Rightarrow> bool" where
  "isReturnCompletion (ReturnCompletion _ _ _) = True"
| "isReturnCompletion _ = False"

fun isThrowCompletion :: "'v completion \<Rightarrow> bool" where
  "isThrowCompletion (ThrowCompletion _ _ _) = True"
| "isThrowCompletion _ = False"

fun c_target :: "'v completion \<Rightarrow> string option" where
  "c_target (BreakCompletion _ _ _ t) = t"
| "c_target (ContinueCompletion _ _ _ t) = t"
| "c_target _ = None"

fun c_location :: "'v completion \<Rightarrow> location option" where
  "c_location (BreakCompletion _ _ l _) = l"
| "c_location (ContinueCompletion _ _ l _) = l"
| "c_location (ReturnCompletion _ _ l) = l"
| "c_location (ThrowCompletion _ _ l) = l"
| "c_location _ = None"

fun c_savedPathConditions :: "'v completion \<Rightarrow> 'v list" where
  "c_savedPathConditions (PossiblyNormalCompletion _ _ _ _ p _ _) = p"
| "c_savedPathConditions _ = []"

fun c_savedEffects :: "'v completion \<Rightarrow> addr option" where
  "c_savedEffects (PossiblyNormalCompletion _ _ _ _ _ s _) = s"
| "c_savedEffects _ = None"

text \<open>
  \<open>collapseResults\<close>.  Modelled from the spec: the completion constructors
  (completions.js is not among the sources) store the arguments they are given; the
  argument \<open>precedingEffects\<close> is the field \<open>effects\<close>.
\<close>

definition collapseResults ::
  "'v realm \<Rightarrow> 'v \<Rightarrow> addr \<Rightarrow> 'v completion \<Rightarrow> 'v completion \<Rightarrow> 'v error + 'v completion" where
  "collapseResults R joinCondition precedingEffects result1 result2 =
     (if isBreakCompletion result1 \<and> isBreakCompletion result2
         \<and> c_target result1 = c_target result2 then
        andThen (joinValues R (map_option Val (c_value result1)) (map_option Val (c_value result2))
                   (getAbstractValue_orEmpty R joinCondition)) (\<lambda>r.
        andThen (requireValue r) (\<lambda>val.
          Inr (BreakCompletion val (Some precedingEffects) (expressionLocation R joinCondition)
                 (c_target result1))))
      else if isContinueCompletion result1 \<and> isContinueCompletion result2
         \<and> c_target result1 = c_target result2 then
        Inr (ContinueCompletion (intrinsics_empty R) (Some precedingEffects)
               (expressionLocation R joinCondition) (c_target result1))
      else if isReturnCompletion result1 \<and> isReturnCompletion result2 then
        andThen (joinValues R (map_option Val (c_value result1)) (map_option Val (c_value result2))
                   (getAbstractValue_orEmpty R joinCondition)) (\<lambda>r.
        andThen (requireValue r) (\<lambda>val.
          Inr (ReturnCompletion val (Some precedingEffects)
                 (expressionLocation R joinCondition))))
      else if isThrowCompletion result1 \<and> isThrowCompletion result2 then
        andThen (joinValues R (map_option Val (c_value result1)) (map_option Val (c_value result2))
                   (getAbstractValue_conditional R joinCondition)) (\<lambda>r.
        andThen (requireValue r) (\<lambda>val.
          Inr (ThrowCompletion val (Some precedingEffects) (c_location result1))))
      else if isSimpleNormalCompletion result1 \<and> isSimpleNormalCompletion result2 then
        andThen (getAbstractValue_orEmpty R joinCondition (c_value result1) (c_value result2))
          (\<lambda>val. Inr (SimpleNormalCompletion val (Some precedingEffects)))
      else Inl (FatalError joinCondition))"

text \<open>
  \<open>joinNormalCompletions\<close>.  The assignment \<open>a.value = rv\<close> writes the completion
  object \<open>a\<close>, which is the result of the effects \<open>ae\<close> (the caller's invariants);
  it is \<open>c\<close> as well when the two effects are one object.
\<close>

definition joinNormalCompletions ::
  "'v realm \<Rightarrow> 'v \<Rightarrow> 'v completion \<Rightarrow> addr \<Rightarrow> 'v completion \<Rightarrow> addr \<Rightarrow> 'v heap
     \<Rightarrow> 'v error + ('v completion \<times> 'v heap)" where
  "joinNormalCompletions R joinCondition c ce a ae h =
     andThen (joinValues R (map_option Val (c_value c)) (map_option Val (c_value a))
                (getAbstractValue_orEmpty R joinCondition)) (\<lambda>r.
     andThen (requireValue r) (\<lambda>rv.
     andThen (lookupEffects h ae) (\<lambda>AE.
       let a' = set_c_value a rv;
           c' = (if ce = ae then a' else c);
           h' = h\<lparr>effectsStore :=
                    (effectsStore h)[ae := AE\<lparr>result := set_c_value (result AE) rv\<rparr>]\<rparr>
       in Inr (PossiblyNormalCompletion rv joinCondition c' a' [] None None, h'))))"

text \<open>\<open>joinOrForkResults\<close>.\<close>

definition joinOrForkResults ::
  "'v realm \<Rightarrow> 'v \<Rightarrow> 'v completion \<Rightarrow> 'v completion \<Rightarrow> addr \<Rightarrow> addr \<Rightarrow> 'v heap
     \<Rightarrow> 'v error + ('v completion \<times> 'v heap)" where
  "joinOrForkResults R joinCondition result1 result2 e1 e2 h =
     andThen (lookupEffects h e1) (\<lambda>E1.
     andThen (lookupEffects h e2) (\<lambda>E2.
       if c_effects result1 \<noteq> Some e1 then Inl InvariantViolation
       else if result E1 \<noteq> result1 then Inl InvariantViolation
       else if c_effects result2 \<noteq> Some e2 then Inl InvariantViolation
       else if result E2 \<noteq> result2 then Inl InvariantViolation
       else if isReference result1 \<or> isReference result2
         then Inl (FatalError joinCondition)
       else if isSimpleNormalCompletion result1 \<and> isSimpleNormalCompletion result2 then
         andThen (joinValues R (map_option Val (c_value result1))
                    (map_option Val (c_value result2))
                    (getAbstractValue_conditional R joinCondition)) (\<lambda>r.
         andThen (requireValue r) (\<lambda>val. Inr (SimpleNormalCompletion val None, h)))
       else if isAbruptCompletion result1 \<and> isAbruptCompletion result2 then
         Inr (ForkedAbruptCompletion joinCondition result1 result2 None, h)
       else if isNormalCompletion result1 \<and> isNormalCompletion result2 then
         joinNormalCompletions R joinCondition result1 e1 result2 e2 h
       else if isAbruptCompletion result1 then
         andThen (if isPossiblyNormalCompletion result2 then getNormalCompletion R result2
                  else Inr result2) (\<lambda>completion.
           case completion of
             SimpleNormalCompletion v ef \<Rightarrow>
               Inr (PossiblyNormalCompletion v joinCondition result1 result2
                      (c_savedPathConditions result2) (c_savedEffects result2) None, h)
           | _ \<Rightarrow> Inl InvariantViolation)
       else if isAbruptCompletion result2 then
         andThen (if isPossiblyNormalCompletion result1 then getNormalCompletion R result1
                  else Inr result1) (\<lambda>completion.
           case completion of
             SimpleNormalCompletion v ef \<Rightarrow>
               Inr (PossiblyNormalCompletion v joinCondition result1 result2
                      (c_savedPathConditions result1) (c_savedEffects result1) None, h)
           | _ \<Rightarrow> Inl InvariantViolation)
       else Inl InvariantViolation))"

subsection \<open>Joining two forks\<close>

text \<open>
  Modelled from the spec: \<open>new Effects(result, generator, bindings, properties,
  createdObjects)\<close> and \<open>construct_empty_effects\<close> (realm.js is not among the
  sources).  An \<open>Effects\<close> is the record of its five fields with the invariant
  "\<open>result.effects === this\<close> once attached", so the constructor attaches the new object
  to its result; the empty effects have a new empty generator, empty maps, no created
  object and a normal completion with the value \<open>empty\<close>.
\<close>

definition newEffects ::
  "'v heap \<Rightarrow> 'v completion \<Rightarrow> addr \<Rightarrow> 'v Bindings \<Rightarrow> 'v PropertyBindings \<Rightarrow> 'v set
     \<Rightarrow> addr \<times> 'v heap" where
  "newEffects h res gen bindings properties created =
     (let this = length (effectsStore h) in
      (this,
       h\<lparr>effectsStore := effectsStore h @
           [\<lparr>result = set_effects res (Some this), generator = gen,
             modifiedBindings = bindings, modifiedProperties = properties,
             createdObjects = created\<rparr>]\<rparr>))"

definition construct_empty_effects :: "'v realm \<Rightarrow> 'v heap \<Rightarrow> addr \<times> 'v heap" where
  "construct_empty_effects R h =
     (let (g, h1) = newGenerator h ''construct_empty_effects'' (pathConditions R) in
      newEffects h1 (SimpleNormalCompletion (intrinsics_empty R) None) g [] [] {})"

text \<open>The assignment \<open>e.generator = g\<close> to an \<open>Effects\<close> object of the store.\<close>

definition setGenerator :: "'v heap \<Rightarrow> addr \<Rightarrow> addr \<Rightarrow> 'v error + 'v heap" where
  "setGenerator h e g =
     andThen (lookupEffects h e) (\<lambda>E.
       Inr (h\<lparr>effectsStore := (effectsStore h)[e := E\<lparr>generator := g\<rparr>]\<rparr>))"

text \<open>\<open>joinForkOrChoose\<close>: the two effects are objects of the store, given and returned
  by their addresses.\<close>

definition joinForkOrChoose ::
  "'v realm \<Rightarrow> 'v \<Rightarrow> addr \<Rightarrow> addr \<Rightarrow> 'v heap \<Rightarrow> 'v error + (addr \<times> 'v heap)" where
  "joinForkOrChoose R joinCondition e1 e2 h =
     (if \<not> mightNotBeTrue R joinCondition then Inr (e1, h)
      else if \<not> mightNotBeFalse R joinCondition then Inr (e2, h)
      else if \<not> instanceofAbstractValue R joinCondition then Inl InvariantViolation
      else
        andThen (lookupEffects h e1) (\<lambda>E1.
        let result1 = result E1; generator1 = generator E1;
            modifiedBindings1 = modifiedBindings E1;
            modifiedProperties1 = modifiedProperties E1;
            createdObjects1 = createdObjects E1
        in
        if c_effects result1 \<noteq> Some e1 then Inl InvariantViolation else
        andThen (lookupEffects h e2) (\<lambda>E2.
        let result2 = result E2; generator2 = generator E2;
            modifiedBindings2 = modifiedBindings E2;
            modifiedProperties2 = modifiedProperties E2;
            createdObjects2 = createdObjects E2
        in
        if c_effects result2 \<noteq> Some e2 then Inl InvariantViolation else
        let (emptyEffects, h0) = construct_empty_effects R h in
        andThen (lookupEffects h0 emptyEffects) (\<lambda>EE.
        andThen (joinOrForkResults R joinCondition result1 result2 e1 e2 h0) (\<lambda>(res, h1).
        let joinBoth =
          andThen (joinBindings R joinCondition generator1 modifiedBindings1
                     generator2 modifiedBindings2 h1)
            (\<lambda>((modifiedGenerator1, modifiedGenerator2, bindings), h2).
          andThen (joinPropertyBindings R joinCondition modifiedProperties1
                     modifiedProperties2 createdObjects1 createdObjects2) (\<lambda>properties.
          let created = createdObjects1 \<union> createdObjects2 in
          andThen (joinGenerators R joinCondition modifiedGenerator1 modifiedGenerator2 h2)
            (\<lambda>(gen, h3).
          Inr (newEffects h3 res gen bindings properties created))))
        in
        if isAbruptCompletion result1 then
          (if \<not> isAbruptCompletion result2 then
             (if \<not> isPossiblyNormalCompletion res then Inl InvariantViolation
              else andThen (setGenerator h1 e2 (generator EE)) (\<lambda>h2.
                     Inr (newEffects h2 res generator2 modifiedBindings2
                            modifiedProperties2 createdObjects2)))
           else joinBoth)
        else if isAbruptCompletion result2 then
          (if \<not> isPossiblyNormalCompletion res then Inl InvariantViolation
           else andThen (setGenerator h1 e1 (generator EE)) (\<lambda>h2.
                  Inr (newEffects h2 res generator1 modifiedBindings1
                         modifiedProperties1 createdObjects1)))
        else joinBoth)))))"

section \<open>A value model for concrete instances\<close>

text \<open>
  The theorems below hold for every realm.  Their instances on concrete inputs are
  evaluated in the following value model: values are objects with an identity; numbers
  carry a number or \<open>NaN\<close>; \<open>createFromConditionalOp\<close> builds the abstract value
  "\<open>c ? a : b\<close>"; strict equality is the one of ECMAScript (a number equals a number of
  the same numeric value, \<open>NaN\<close> equals nothing, other values are equal when they are the
  same object); a descriptor is a data descriptor when it has a value or a
  \<open>writable\<close> field, and two descriptors are equal when their attributes and accessors
  are, and the second has a value if the first has one.
\<close>

datatype number = NaN | Finite int

datatype sample =
    UndefinedValue
  | EmptyValue
  | NumberValue nat number
  | ObjectValue nat
  | AbstractValue nat
  | ConditionalValue sample "sample option" "sample option"

fun sample_isAbstract :: "sample \<Rightarrow> bool" where
  "sample_isAbstract (AbstractValue _) = True"
| "sample_isAbstract (ConditionalValue _ _ _) = True"
| "sample_isAbstract _ = False"

fun sample_mightNotBeTrue :: "sample \<Rightarrow> bool" where
  "sample_mightNotBeTrue (ObjectValue _) = False"
| "sample_mightNotBeTrue (NumberValue _ n) = (n = NaN \<or> n = Finite 0)"
| "sample_mightNotBeTrue _ = True"

fun sample_mightNotBeFalse :: "sample \<Rightarrow> bool" where
  "sample_mightNotBeFalse UndefinedValue = False"
| "sample_mightNotBeFalse EmptyValue = False"
| "sample_mightNotBeFalse (NumberValue _ n) = (n \<noteq> NaN \<and> n \<noteq> Finite 0)"
| "sample_mightNotBeFalse _ = True"

fun sample_StrictEqualityComparison :: "sample \<Rightarrow> sample \<Rightarrow> bool" where
  "sample_StrictEqualityComparison (NumberValue _ x) (NumberValue _ y) =
     (x \<noteq> NaN \<and> y \<noteq> NaN \<and> x = y)"
| "sample_StrictEqualityComparison x y = (x = y)"

definition sample_IsDataDescriptor :: "sample descriptor \<Rightarrow> bool" where
  "sample_IsDataDescriptor d = (dvalue d \<noteq> None \<or> writable d \<noteq> None)"

definition sample_equalDescriptors :: "sample descriptor \<Rightarrow> sample descriptor \<Rightarrow> bool" where
  "sample_equalDescriptors d1 d2 =
     (writable d1 = writable d2 \<and> enumerable d1 = enumerable d2
      \<and> configurable d1 = configurable d2
      \<and> (dvalue d1 = None \<or> dvalue d2 \<noteq> None)
      \<and> dget d1 = dget d2 \<and> dset d1 = dset d2)"

fun sample_getNormalCompletion :: "sample completion \<Rightarrow> sample error + sample completion" where
  "sample_getNormalCompletion (PossiblyNormalCompletion v j c a p s e) =
     (if isSimpleNormalCompletion a then Inr a
      else if isSimpleNormalCompletion c then Inr c
      else if isPossiblyNormalCompletion a then sample_getNormalCompletion a
      else if isPossiblyNormalCompletion c then sample_getNormalCompletion c
      else Inl InvariantViolation)"
| "sample_getNormalCompletion c = Inl InvariantViolation"

definition sampleRealm :: "sample realm" where
  "sampleRealm =
     \<lparr>intrinsics_empty = EmptyValue,
      intrinsics_undefined = UndefinedValue,
      pathConditions = [],
      instanceofAbstractValue = sample_isAbstract,
      instanceofEmptyValue = (\<lambda>v. v = EmptyValue),
      mightNotBeTrue = sample_mightNotBeTrue,
      mightNotBeFalse = sample_mightNotBeFalse,
      expressionLocation = (\<lambda>v. None),
      StrictEqualityComparison = sample_StrictEqualityComparison,
      createFromConditionalOp = (\<lambda>c a b. Inr (ConditionalValue c a b)),
      IsDataDescriptor = sample_IsDataDescriptor,
      equalDescriptors = sample_equalDescriptors,
      getNormalCompletion = sample_getNormalCompletion\<rparr>"

text \<open>The same realm with an abstraction that raises whenever it is called: a function that
  returns in this realm has not called it.\<close>

definition raisingRealm :: "sample realm" where
  "raisingRealm =
     sampleRealm\<lparr>createFromConditionalOp := (\<lambda>c a b. Inl (Thrown ''createFromConditionalOp''))\<rparr>"


definition raising :: "sample option \<Rightarrow> sample option \<Rightarrow> sample error + sample" where
  "raising a b = Inl (Thrown ''getAbstractValue'')"


text \<open>
  The union of two maps as the specification words it: the keys of the first map in its
  insertion order, then the keys that only the second map has, each with the join of the
  two maps' values for it (\<open>undefined\<close> for a missing entry).
\<close>

definition unionInOrder ::
  "('k \<Rightarrow> 'a option \<Rightarrow> 'a option \<Rightarrow> 'a option) \<Rightarrow> ('k, 'a) jsmap \<Rightarrow> ('k, 'a) jsmap
     \<Rightarrow> ('k, 'a) jsmap" where
  "unionInOrder f m1 m2 =
     map (\<lambda>(k, v). (k, f k v (mapGet m2 k))) m1
     @ map (\<lambda>(k, v). (k, f k None v)) (filter (\<lambda>(k, v). \<not> mapHas m1 k) m2)"

text \<open>
  The join of a written descriptor \<open>w\<close> (with the value \<open>x\<close>) and the descriptor of a
  deleted property (the pre-fork descriptor \<open>pre\<close> with the value \<open>empty\<close>) as the
  specification words it: a descriptor "whose two sides are the written value and the
  empty value".  It is the written descriptor with the conditional value when the two
  descriptors are equal data descriptors, and the descriptor that holds the join
  condition and the two descriptors otherwise.
\<close>

definition writtenOrAbsent ::
  "'v realm \<Rightarrow> 'v \<Rightarrow> 'v descriptor \<Rightarrow> 'v \<Rightarrow> 'v descriptor \<Rightarrow> 'v error + 'v descriptor option" where
  "writtenOrAbsent R c w x pre =
     (let deleted = set_value pre (Some (Val (intrinsics_empty R))) in
      if equalDescriptors R w deleted \<and> IsDataDescriptor R w then
        andThen
          (if \<not> instanceofAbstractValue R x \<and> \<not> instanceofAbstractValue R (intrinsics_empty R)
              \<and> StrictEqualityComparison R x (intrinsics_empty R)
           then Inr x
           else createFromConditionalOp R c (Some x) (Some (intrinsics_empty R)))
          (\<lambda>v. Inr (Some (set_value w (Some (Val v)))))
      else
        Inr (Some (Descriptor None None None None None None (Some c) (Some w) (Some deleted))))"

definition absentOrWritten ::
  "'v realm \<Rightarrow> 'v \<Rightarrow> 'v descriptor \<Rightarrow> 'v descriptor \<Rightarrow> 'v \<Rightarrow> 'v error + 'v descriptor option" where
  "absentOrWritten R c pre w x =
     (let deleted = set_value pre (Some (Val (intrinsics_empty R))) in
      if equalDescriptors R deleted w \<and> IsDataDescriptor R deleted then
        andThen
          (if \<not> instanceofAbstractValue R (intrinsics_empty R) \<and> \<not> instanceofAbstractValue R x
              \<and> StrictEqualityComparison R (intrinsics_empty R) x
           then Inr (intrinsics_empty R)
           else createFromConditionalOp R c (Some (intrinsics_empty R)) (Some x))
          (\<lambda>v. Inr (Some (set_value deleted (Some (Val v)))))
      else
        Inr (Some (Descriptor None None None None None None (Some c) (Some deleted) (Some w))))"

text \<open>Sample data: a property \<open>p\<close> of an object that exists before the fork, with the
  value 1; the descriptor written in a branch holds the value 5.\<close>

definition samplePre :: "sample descriptor" where
  "samplePre = Descriptor (Some True) (Some True) (Some True)
     (Some (Val (NumberValue 1 (Finite 1)))) None None None None None"

definition sampleWritten :: "sample descriptor" where
  "sampleWritten = Descriptor (Some True) (Some True) (Some True)
     (Some (Val (NumberValue 2 (Finite 5)))) None None None None None"

definition sampleSlot :: "sample PropertyBinding" where
  "sampleSlot = \<lparr>pb_object = ObjectValue 1, pb_key = ''p'', pb_descriptor = Some samplePre\<rparr>"

text \<open>Sample data: the bindings \<open>x\<close> and \<open>y\<close>, and entries for them.\<close>

definition sampleBinding :: "sample Binding" where
  "sampleBinding = \<lparr>binding_name = ''x'', binding_hasLeaked = False,
                     binding_value = Some (NumberValue 0 (Finite 0))\<rparr>"

definition sampleOtherBinding :: "sample Binding" where
  "sampleOtherBinding = \<lparr>binding_name = ''y'', binding_hasLeaked = False,
                          binding_value = None\<rparr>"

definition sampleEntry :: "bool \<Rightarrow> sample \<Rightarrow> sample option \<Rightarrow> sample BindingEntry" where
  "sampleEntry leaked v previous =
     \<lparr>hasLeaked = leaked, entryValue = Some v, previousHasLeaked = Some False,
      previousValue = previous\<rparr>"

definition sampleGenerators :: "sample heap" where
  "sampleGenerators =
     \<lparr>effectsStore = [],
      generatorStore =
        [\<lparr>g_name = ''branch1'', g_pathConditions = [], g_entries = [ResidualOperation 1]\<rparr>,
         \<lparr>g_name = ''branch2'', g_pathConditions = [], g_entries = [ResidualOperation 2]\<rparr>]\<rparr>"

text \<open>Sample data: a store with the effects of two branches, the first ending in a
  \<open>throw\<close>, the second normally; each has a generator with one residual operation.\<close>

definition sampleFork :: "sample heap" where
  "sampleFork =
     \<lparr>effectsStore =
        [\<lparr>result = ThrowCompletion (NumberValue 1 (Finite 1)) (Some 0) None,
          generator = 0, modifiedBindings = [], modifiedProperties = [],
          createdObjects = {ObjectValue 1}\<rparr>,
         \<lparr>result = SimpleNormalCompletion (NumberValue 2 (Finite 2)) (Some 1),
          generator = 1, modifiedBindings = [], modifiedProperties = [],
          createdObjects = {ObjectValue 2}\<rparr>],
      generatorStore =
        [\<lparr>g_name = ''branch1'', g_pathConditions = [], g_entries = [ResidualOperation 1]\<rparr>,
         \<lparr>g_name = ''branch2'', g_pathConditions = [], g_entries = [ResidualOperation 2]\<rparr>]\<rparr>"

definition sampleForkJoined :: "sample heap" where
  "sampleForkJoined =
     \<lparr>effectsStore =
        [\<lparr>result = ThrowCompletion (NumberValue 1 (Finite 1)) (Some 0) None,
          generator = 0, modifiedBindings = [], modifiedProperties = [],
          createdObjects = {ObjectValue 1}\<rparr>,
         \<lparr>result = SimpleNormalCompletion (NumberValue 2 (Finite 2)) (Some 1),
          generator = 2, modifiedBindings = [], modifiedProperties = [],
          createdObjects = {ObjectValue 2}\<rparr>,
         \<lparr>result = SimpleNormalCompletion EmptyValue (Some 2),
          generator = 2, modifiedBindings = [], modifiedProperties = [],
          createdObjects = {}\<rparr>,
         \<lparr>result = PossiblyNormalCompletion (NumberValue 2 (Finite 2)) (AbstractValue 0)
                     (ThrowCompletion (NumberValue 1 (Finite 1)) (Some 0) None)
                     (SimpleNormalCompletion (NumberValue 2 (Finite 2)) (Some 1))
                     [] None (Some 3),
          generator = 1, modifiedBindings = [], modifiedProperties = [],
          createdObjects = {ObjectValue 2}\<rparr>],
      generatorStore =
        [\<lparr>g_name = ''branch1'', g_pathConditions = [], g_entries = [ResidualOperation 1]\<rparr>,
         \<lparr>g_name = ''branch2'', g_pathConditions = [], g_entries = [ResidualOperation 2]\<rparr>,
         \<lparr>g_name = ''construct_empty_effects'', g_pathConditions = [], g_entries = []\<rparr>]\<rparr>"

section \<open>Invariants of the binding join\<close>

text \<open>
  The relation between the store before and after steps of \<open>joinBindings\<close>: the
  effects are the same, the first \<open>n\<close> generators (those that exist when
  \<open>joinBindings\<close> is called) are the same, generators are only added, and entries are
  only appended to a generator's entries.
\<close>

definition heapGrows :: "nat \<Rightarrow> 'v heap \<Rightarrow> 'v heap \<Rightarrow> bool" where
  "heapGrows n h h' =
     (effectsStore h' = effectsStore h
      \<and> length (generatorStore h) \<le> length (generatorStore h')
      \<and> take n (generatorStore h') = take n (generatorStore h)
      \<and> (\<forall>i < length (generatorStore h).
            \<exists>es. g_entries (generatorStore h' ! i) = g_entries (generatorStore h ! i) @ es))"

text \<open>The variables of \<open>joinBindings\<close>: a generator variable that has been rewritten
  names a generator created by \<open>leak\<close>, with an address from \<open>n\<close> on; one that has
  not is still the argument of the call.\<close>

definition leakInv :: "nat \<Rightarrow> addr \<Rightarrow> addr \<Rightarrow> 'v leakState \<Rightarrow> bool" where
  "leakInv n g1o g2o st =
     (case st of (g1, rewritten1, g2, rewritten2, h) \<Rightarrow>
        n \<le> length (generatorStore h)
        \<and> (if rewritten1 then n \<le> g1 \<and> g1 < length (generatorStore h) else g1 = g1o)
        \<and> (if rewritten2 then n \<le> g2 \<and> g2 < length (generatorStore h) else g2 = g2o))"

text \<open>The two generator variables of \<open>joinBindings\<close> name objects of the store.\<close>

definition validGenerators :: "'v leakState \<Rightarrow> bool" where
  "validGenerators st =
     (case st of (g1, rewritten1, g2, rewritten2, h) \<Rightarrow>
        g1 < length (generatorStore h) \<and> g2 < length (generatorStore h))"

definition stateGrows :: "nat \<Rightarrow> 'v leakState \<Rightarrow> 'v leakState \<Rightarrow> bool" where
  "stateGrows n st st' =
     (case st of (g1, rewritten1, g2, rewritten2, h) \<Rightarrow>
      case st' of (g1', rewritten1', g2', rewritten2', h') \<Rightarrow>
        heapGrows n h h'
        \<and> (rewritten1 \<longrightarrow> rewritten1' \<and> g1' = g1)
        \<and> (rewritten2 \<longrightarrow> rewritten2' \<and> g2' = g2))"

text \<open>The first (second) generator variable names a wrapper whose entries are the entries
  \<open>orig\<close> followed by entries among which is the assignment of \<open>y\<close> to \<open>b\<close>.\<close>

definition assigned1 :: "'v GeneratorEntry list \<Rightarrow> 'v Binding \<Rightarrow> 'v \<Rightarrow> 'v leakState \<Rightarrow> bool" where
  "assigned1 orig b y st =
     (case st of (g1, rewritten1, g2, rewritten2, h) \<Rightarrow>
        rewritten1 \<and> g1 < length (generatorStore h)
        \<and> (\<exists>es. g_entries (generatorStore h ! g1) = orig @ es
                 \<and> BindingAssignment b y \<in> set es))"

definition assigned2 :: "'v GeneratorEntry list \<Rightarrow> 'v Binding \<Rightarrow> 'v \<Rightarrow> 'v leakState \<Rightarrow> bool" where
  "assigned2 orig b y st =
     (case st of (g1, rewritten1, g2, rewritten2, h) \<Rightarrow>
        rewritten2 \<and> g2 < length (generatorStore h)
        \<and> (\<exists>es. g_entries (generatorStore h ! g2) = orig @ es
                 \<and> BindingAssignment b y \<in> set es))"

text \<open>The first (second) generator variable names a wrapper whose entries begin with
  \<open>orig\<close>.\<close>

definition wraps1 :: "'v GeneratorEntry list \<Rightarrow> 'v leakState \<Rightarrow> bool" where
  "wraps1 orig st =
     (case st of (g1, rewritten1, g2, rewritten2, h) \<Rightarrow>
        rewritten1 \<and> g1 < length (generatorStore h)
        \<and> (\<exists>es. g_entries (generatorStore h ! g1) = orig @ es))"

definition wraps2 :: "'v GeneratorEntry list \<Rightarrow> 'v leakState \<Rightarrow> bool" where
  "wraps2 orig st =
     (case st of (g1, rewritten1, g2, rewritten2, h) \<Rightarrow>
        rewritten2 \<and> g2 < length (generatorStore h)
        \<and> (\<exists>es. g_entries (generatorStore h ! g2) = orig @ es))"

text \<open>The invariant of the loops of \<open>joinBindings\<close> called on the store \<open>h0\<close> with the
  generators \<open>g1o\<close> and \<open>g2o\<close>.\<close>

definition joinInv :: "'v heap \<Rightarrow> addr \<Rightarrow> addr \<Rightarrow> 'v leakState \<Rightarrow> bool" where
  "joinInv h0 g1o g2o st =
     (case st of (g1, rewritten1, g2, rewritten2, h) \<Rightarrow>
        leakInv (length (generatorStore h0)) g1o g2o st
        \<and> heapGrows (length (generatorStore h0)) h0 h
        \<and> (rewritten1 \<longrightarrow> wraps1 (g_entries (generatorStore h0 ! g1o)) st)
        \<and> (rewritten2 \<longrightarrow> wraps2 (g_entries (generatorStore h0 ! g2o)) st))"

text \<open>Sample data: the store after the binding \<open>x\<close>, leaked in the first branch with
  the value 1 and not leaked in the second with the value 2, has been joined.\<close>

definition sampleGeneratorsJoined :: "sample heap" where
  "sampleGeneratorsJoined =
     \<lparr>effectsStore = [],
      generatorStore =
        [\<lparr>g_name = ''branch1'', g_pathConditions = [], g_entries = [ResidualOperation 1]\<rparr>,
         \<lparr>g_name = ''branch2'', g_pathConditions = [], g_entries = [ResidualOperation 2]\<rparr>,
         \<lparr>g_name = ''RewrittenToAppendBindingAssignments'', g_pathConditions = [],
          g_entries = [ResidualOperation 2,
                       BindingAssignment sampleBinding (NumberValue 2 (Finite 2))]\<rparr>]\<rparr>"

section \<open>Termination of link resolution\<close>

lemma resolve_link:
  "isLink d \<Longrightarrow> resolveLinksAndWrap d p k u = resolveLinksAndWrap (followLink u d) p k u"
  by (subst resolveLinksAndWrap.simps)
     (auto simp: isLink_def followLink_def split: option.splits ShapeDescriptor.splits)

lemma resolve_nonlink: "\<not> isLink d \<Longrightarrow> resolveLinksAndWrap d p k u \<noteq> None"
  by (subst resolveLinksAndWrap.simps)
     (auto simp: isLink_def split: option.splits ShapeDescriptor.splits)

lemma resolve_finite:
  "\<not> isLink (linkChain u n d) \<Longrightarrow> resolveLinksAndWrap d p k u \<noteq> None"
proof (induction n arbitrary: d)
  case 0
  then show ?case by (simp add: resolve_nonlink)
next
  case (Suc n)
  show ?case
  proof (cases "isLink d")
    case True
    with Suc show ?thesis by (simp add: resolve_link)
  next
    case False
    then show ?thesis by (rule resolve_nonlink)
  qed
qed

lemma resolve_returns:
  "resolveLinksAndWrap d p k u = Some r \<Longrightarrow> \<exists>n. \<not> isLink (linkChain u n d)"
proof (rule resolveLinksAndWrap.raw_induct
    [where P = "\<lambda>d p k u r. \<exists>n. \<not> isLink (linkChain u n d)"], goal_cases)
  case (1 rec d p k u r)
  show ?case
  proof (cases "isLink d")
    case True
    with 1 have "rec (followLink u d) p k u = Some r"
      by (auto simp: isLink_def followLink_def split: option.splits ShapeDescriptor.splits)
    with 1 obtain n where "\<not> isLink (linkChain u n (followLink u d))" by blast
    then have "\<not> isLink (linkChain u (Suc n) d)" by simp
    then show ?thesis by blast
  next
    case False
    then have "\<not> isLink (linkChain u 0 d)" by simp
    then show ?thesis by blast
  qed
qed simp

lemma resolve_terminates_iff:
  "(resolveLinksAndWrap d p k u \<noteq> None) = (\<exists>n. \<not> isLink (linkChain u n d))"
  using resolve_finite resolve_returns by blast

lemma linkChain_self_link:
  "u s = Some (ShapeDescriptorOfLink j g s) \<Longrightarrow>
   linkChain u n (Some (ShapeDescriptorOfLink j g s)) = Some (ShapeDescriptorOfLink j g s)"
  by (induction n) (simp_all add: followLink_def)

text \<open>
  C10. \<open>_resolveLinksAndWrap\<close> returns exactly when the chain of link descriptors
  that starts at its descriptor argument ends after finitely many steps in a non-link
  descriptor or in a missing entry; the same holds for \<open>createForArgument\<close>,
  \<open>createForReactComponentProps\<close> and \<open>getPropertyShape\<close>, which call it on the
  descriptor they look up; and in a universe where a link descriptor's
  \<open>shapeName\<close> resolves to that same link descriptor, the loop never returns.
\<close>

theorem resolveLinksAndWrap_terminates_iff_chain_finite:
  "(resolveLinksAndWrap d p k u \<noteq> None) = (\<exists>n. \<not> isLink (linkChain u n d))
   \<and> (createForArgument (Some m) argname \<noteq> None) =
       (\<exists>n. \<not> isLink (linkChain (arg_universe m) n
          (arg_universe m (case arguments m argname of Some s \<Rightarrow> s | None \<Rightarrow> ''undefined''))))
   \<and> (createForReactComponentProps (Some c) \<noteq> None) =
       (\<exists>n. \<not> isLink (linkChain (component_universe c) n
          (component_universe c (component_props c))))
   \<and> (getPropertyShape this key \<noteq> None) =
       (case getInformationForProperty this key of
          None \<Rightarrow> True
        | Some property \<Rightarrow>
            \<exists>n. \<not> isLink (linkChain (si_universe this) n (Some (shape property))))
   \<and> resolveLinksAndWrap (Some (ShapeDescriptorOfLink j g s)) p k
         (u(s := Some (ShapeDescriptorOfLink j g s))) = None"
proof -
  let ?u = "u(s := Some (ShapeDescriptorOfLink j g s))"
  have "\<forall>n. isLink (linkChain ?u n (Some (ShapeDescriptorOfLink j g s)))"
    by (simp add: linkChain_self_link isLink_def)
  then have "resolveLinksAndWrap (Some (ShapeDescriptorOfLink j g s)) p k ?u = None"
    using resolve_terminates_iff [of "Some (ShapeDescriptorOfLink j g s)" p k ?u] by blast
  moreover have "(getPropertyShape this key \<noteq> None) =
       (case getInformationForProperty this key of
          None \<Rightarrow> True
        | Some property \<Rightarrow>
            \<exists>n. \<not> isLink (linkChain (si_universe this) n (Some (shape property))))"
    by (cases "getInformationForProperty this key")
       (simp_all add: getPropertyShape_def resolve_terminates_iff [unfolded not_None_eq])
  ultimately show ?thesis
    by (simp add: resolve_terminates_iff [unfolded not_None_eq] createForArgument_def
        createForReactComponentProps_def)
qed

section \<open>Properties of the join engine\<close>

lemma andThen_simps [simp]:
  "andThen (Inl e) f = Inl e"
  "andThen (Inr x) f = f x"
  by (simp_all add: andThen_def)

subsection \<open>Value join\<close>

text \<open>
  C6 (as amended).  For every non-abstract value \<open>v\<close> that is strictly equal to itself,
  \<open>joinValues(realm, v, v, f)\<close> returns \<open>v\<close> itself whatever \<open>f\<close> is, also when
  \<open>f\<close> raises on every call: \<open>f\<close> is not called.
\<close>

theorem joinValues_same_value:
  "\<not> instanceofAbstractValue R v \<Longrightarrow> StrictEqualityComparison R v v \<Longrightarrow>
   joinValues R (Some (Val v)) (Some (Val v)) f = Inr (Val v)"
  by (simp add: joinValues_def)

theorem joinValues_same_value_witness:
  "\<not> instanceofAbstractValue sampleRealm (NumberValue 1 (Finite 5))
   \<and> StrictEqualityComparison sampleRealm (NumberValue 1 (Finite 5)) (NumberValue 1 (Finite 5))
   \<and> joinValues sampleRealm (Some (Val (NumberValue 1 (Finite 5))))
       (Some (Val (NumberValue 1 (Finite 5)))) raising
     = Inr (Val (NumberValue 1 (Finite 5)))"
  using joinValues_same_value [of sampleRealm "NumberValue 1 (Finite 5)" raising]
  by (simp add: sampleRealm_def)

text \<open>
  The claim as stated fails for the number \<open>NaN\<close>, a concrete value that is not strictly
  equal to itself: \<open>joinValues\<close> calls \<open>f\<close> on it, and raises when \<open>f\<close> does.
\<close>

theorem joinValues_NaN_calls_f:
  "\<not> instanceofAbstractValue sampleRealm (NumberValue 1 NaN)
   \<and> joinValues sampleRealm (Some (Val (NumberValue 1 NaN))) (Some (Val (NumberValue 1 NaN)))
       raising
     = Inl (Thrown ''getAbstractValue'')"
  by (simp add: joinValues_def sampleRealm_def raising_def)

subsection \<open>Short circuits of the fork join\<close>

text \<open>
  C1.  For a join condition that is not contradictory (it might not be true or it might
  not be false): if the condition cannot be false (\<open>mightNotBeTrue\<close> is false),
  \<open>joinForkOrChoose\<close> returns the effects object \<open>e1\<close> itself, and if it cannot be
  true (\<open>mightNotBeFalse\<close> is false), it returns \<open>e2\<close> itself; in both cases the
  store is unchanged: no object is created or written, and no abstraction is called.
\<close>

theorem joinForkOrChoose_short_circuit:
  "mightNotBeTrue R joinCondition \<or> mightNotBeFalse R joinCondition \<Longrightarrow>
   (\<not> mightNotBeTrue R joinCondition \<longrightarrow>
      joinForkOrChoose R joinCondition e1 e2 h = Inr (e1, h))
   \<and> (\<not> mightNotBeFalse R joinCondition \<longrightarrow>
      joinForkOrChoose R joinCondition e1 e2 h = Inr (e2, h))"
  by (auto simp: joinForkOrChoose_def)

theorem joinForkOrChoose_short_circuit_witness:
  "\<not> mightNotBeTrue raisingRealm (ObjectValue 7)
   \<and> joinForkOrChoose raisingRealm (ObjectValue 7) 0 1
        \<lparr>effectsStore = [], generatorStore = []\<rparr>
      = Inr (0, \<lparr>effectsStore = [], generatorStore = []\<rparr>)
   \<and> \<not> mightNotBeFalse raisingRealm UndefinedValue
   \<and> joinForkOrChoose raisingRealm UndefinedValue 0 1
        \<lparr>effectsStore = [], generatorStore = []\<rparr>
      = Inr (1, \<lparr>effectsStore = [], generatorStore = []\<rparr>)"
  using joinForkOrChoose_short_circuit [of raisingRealm "ObjectValue 7" 0 1
      "\<lparr>effectsStore = [], generatorStore = []\<rparr>"]
    joinForkOrChoose_short_circuit [of raisingRealm UndefinedValue 0 1
      "\<lparr>effectsStore = [], generatorStore = []\<rparr>"]
  by (simp add: raisingRealm_def sampleRealm_def)

subsection \<open>Collapsing results\<close>

lemma requireValue_Val [simp]: "requireValue (Val v) = Inr v"
  by (simp add: requireValue_def)

lemma joinValues_values:
  "joinValues R (Some (Val a)) (Some (Val b)) f =
     (if \<not> instanceofAbstractValue R a \<and> \<not> instanceofAbstractValue R b
         \<and> StrictEqualityComparison R a b
      then Inr (Val a) else andThen (f (Some a) (Some b)) (\<lambda>v. Inr (Val v)))"
  by (simp add: joinValues_def)


text \<open>
  C9.  Two \<open>ContinueCompletion\<close>s with the same target collapse to a
  \<open>ContinueCompletion\<close> whose value is \<open>realm.intrinsics.empty\<close>: the two carried
  values do not occur in the result, and the result is returned in every realm, also
  one whose abstraction and comparison would raise or differ: no value is joined.  Two
  \<open>BreakCompletion\<close>s with the same target, by contrast, carry the join of the two
  values.
\<close>

theorem collapseResults_continue_drops_values:
  "collapseResults R joinCondition precedingEffects
       (ContinueCompletion v1 ef1 l1 t) (ContinueCompletion v2 ef2 l2 t)
     = Inr (ContinueCompletion (intrinsics_empty R) (Some precedingEffects)
              (expressionLocation R joinCondition) t)
   \<and> collapseResults R joinCondition precedingEffects
       (BreakCompletion v1 ef1 l1 t) (BreakCompletion v2 ef2 l2 t)
     = andThen (joinValues R (Some (Val v1)) (Some (Val v2))
                  (getAbstractValue_orEmpty R joinCondition))
         (\<lambda>r. andThen (requireValue r) (\<lambda>val.
            Inr (BreakCompletion val (Some precedingEffects)
                   (expressionLocation R joinCondition) t)))"
  by (simp add: collapseResults_def)




subsection \<open>Union of maps\<close>

lemma mapSet_new: "k \<notin> set (map fst m) \<Longrightarrow> mapSet m k v = m @ [(k, v)]"
  by (induction m) auto

lemma joinMaps_first_loop:
  "distinct (map fst xs) \<Longrightarrow> set (map fst acc) \<inter> set (map fst xs) = {} \<Longrightarrow>
   forEach (\<lambda>(key, val1) (m3, s).
        let val2 = mapGet m2 key in
        andThen (pureJoin f key val1 val2 s) (\<lambda>(val3, s'). Inr (mapSet m3 key val3, s')))
      xs (acc, ())
   = Inr (acc @ map (\<lambda>(k, v). (k, f k v (mapGet m2 k))) xs, ())"
proof (induction xs arbitrary: acc)
  case Nil
  then show ?case by simp
next
  case (Cons x xs)
  obtain k v where x: "x = (k, v)" by (cases x)
  from Cons.prems have new: "k \<notin> set (map fst acc)" by (auto simp: x)
  have "set (map fst (acc @ [(k, f k v (mapGet m2 k))])) \<inter> set (map fst xs) = {}"
    using Cons.prems by (auto simp: x)
  moreover have "distinct (map fst xs)" using Cons.prems by simp
  ultimately show ?case
    using Cons.IH [of "acc @ [(k, f k v (mapGet m2 k))]"]
    by (simp add: x pureJoin_def mapSet_new [OF new])
qed

lemma joinMaps_second_loop:
  "distinct (map fst xs) \<Longrightarrow> set (map fst acc) \<inter> {k \<in> set (map fst xs). \<not> mapHas m1 k} = {} \<Longrightarrow>
   forEach (\<lambda>(key, val2) (m3, s).
        if \<not> mapHas m1 key
        then andThen (pureJoin f key None val2 s) (\<lambda>(val3, s'). Inr (mapSet m3 key val3, s'))
        else Inr (m3, s))
      xs (acc, ())
   = Inr (acc @ map (\<lambda>(k, v). (k, f k None v)) (filter (\<lambda>(k, v). \<not> mapHas m1 k) xs), ())"
proof (induction xs arbitrary: acc)
  case Nil
  then show ?case by simp
next
  case (Cons x xs)
  obtain k v where x: "x = (k, v)" by (cases x)
  have dist: "distinct (map fst xs)" using Cons.prems by simp
  show ?case
  proof (cases "mapHas m1 k")
    case True
    have "set (map fst acc) \<inter> {k \<in> set (map fst xs). \<not> mapHas m1 k} = {}"
      using Cons.prems by (auto simp: x)
    with Cons.IH [of acc] dist True show ?thesis by (simp add: x)
  next
    case False
    with Cons.prems have new: "k \<notin> set (map fst acc)" by (auto simp: x)
    have "set (map fst (acc @ [(k, f k None v)])) \<inter> {k \<in> set (map fst xs). \<not> mapHas m1 k} = {}"
      using Cons.prems by (auto simp: x)
    with Cons.IH [of "acc @ [(k, f k None v)]"] dist False show ?thesis
      by (simp add: x pureJoin_def mapSet_new [OF new])
  qed
qed

lemma joinMaps_pure:
  assumes "distinct (map fst m1)" "distinct (map fst m2)"
  shows "joinMaps m1 m2 (pureJoin f) () = Inr (unionInOrder f m1 m2, ())"
proof -
  have first: "forEach (\<lambda>(key, val1) (m3, s).
        let val2 = mapGet m2 key in
        andThen (pureJoin f key val1 val2 s) (\<lambda>(val3, s'). Inr (mapSet m3 key val3, s')))
      m1 ([], ())
   = Inr (map (\<lambda>(k, v). (k, f k v (mapGet m2 k))) m1, ())"
    using joinMaps_first_loop [of m1 "[]" m2 f] assms(1) by simp
  have keys: "map fst (map (\<lambda>(k, v). (k, f k v (mapGet m2 k))) m1) = map fst m1"
    by (induction m1) auto
  have "set (map fst (map (\<lambda>(k, v). (k, f k v (mapGet m2 k))) m1))
          \<inter> {k \<in> set (map fst m2). \<not> mapHas m1 k} = {}"
    unfolding keys by (auto simp: mapHas_def)
  from joinMaps_second_loop [OF assms(2) this, of f]
  have second: "forEach (\<lambda>(key, val2) (m3, s).
        if \<not> mapHas m1 key
        then andThen (pureJoin f key None val2 s) (\<lambda>(val3, s'). Inr (mapSet m3 key val3, s'))
        else Inr (m3, s))
      m2 (map (\<lambda>(k, v). (k, f k v (mapGet m2 k))) m1, ())
   = Inr (unionInOrder f m1 m2, ())"
    by (simp only: unionInOrder_def)
  show ?thesis
    unfolding joinMaps_def by (simp only: first andThen_simps second)
qed

lemma unionInOrder_keys:
  "map fst (unionInOrder f m1 m2)
     = map fst m1 @ filter (\<lambda>k. k \<notin> set (map fst m1)) (map fst m2)"
proof -
  have a: "map fst (map (\<lambda>(k, v). (k, f k v (mapGet m2 k))) m1) = map fst m1"
    by (induction m1) auto
  have b: "map fst (map (\<lambda>(k, v). (k, f k None v)) (filter (\<lambda>(k, v). \<not> mapHas m1 k) m2))
             = filter (\<lambda>k. k \<notin> set (map fst m1)) (map fst m2)"
    by (induction m2) (force simp: mapHas_def)+
  show ?thesis unfolding unionInOrder_def using a b by simp
qed

lemma mapGet_distinct:
  "distinct (map fst m) \<Longrightarrow> (k, v) \<in> set m \<Longrightarrow> mapGet m k = v"
  by (simp add: mapGet_def)

lemma mapGet_missing: "k \<notin> set (map fst m) \<Longrightarrow> mapGet m k = None"
  by (simp add: mapGet_def map_of_eq_None_iff [THEN iffD2])

lemma unionInOrder_distinct:
  assumes "distinct (map fst m1)" "distinct (map fst m2)"
  shows "distinct (map fst (unionInOrder f m1 m2))"
  unfolding unionInOrder_keys using assms by auto

lemma unionInOrder_value:
  assumes d1: "distinct (map fst m1)" and d2: "distinct (map fst m2)"
    and k: "k \<in> set (map fst m1) \<union> set (map fst m2)"
  shows "map_of (unionInOrder f m1 m2) k = Some (f k (mapGet m1 k) (mapGet m2 k))"
proof -
  have dist: "distinct (map fst (unionInOrder f m1 m2))"
    by (rule unionInOrder_distinct [OF d1 d2])
  show ?thesis
  proof (cases "k \<in> set (map fst m1)")
    case True
    then obtain v where v: "(k, v) \<in> set m1" by auto
    then have "(k, f k v (mapGet m2 k)) \<in> set (unionInOrder f m1 m2)"
      by (force simp: unionInOrder_def)
    with dist have "map_of (unionInOrder f m1 m2) k = Some (f k v (mapGet m2 k))"
      by simp
    with mapGet_distinct [OF d1 v] show ?thesis by simp
  next
    case False
    with k obtain v where v: "(k, v) \<in> set m2" by auto
    with False have "(k, f k None v) \<in> set (unionInOrder f m1 m2)"
      by (force simp: unionInOrder_def mapHas_def)
    with dist have "map_of (unionInOrder f m1 m2) k = Some (f k None v)"
      by simp
    with mapGet_distinct [OF d2 v] mapGet_missing [OF False] show ?thesis by simp
  qed
qed

text \<open>
  C7.  For maps \<open>m1\<close>, \<open>m2\<close> (each key once, as in a JavaScript \<open>Map\<close>), a join
  function \<open>f\<close> and \<open>f'(k, a, b) = f(k, b, a)\<close>: \<open>joinMaps(m1, m2, f)\<close> and
  \<open>joinMaps(m2, m1, f')\<close> return maps with the same key set, the union of the two key
  sets, and each key \<open>k\<close> is mapped by both to \<open>f(k, m1.get(k), m2.get(k))\<close>; the
  entries of \<open>joinMaps(m1, m2, f)\<close> are in the order of \<open>m1\<close>'s entries followed by
  the keys only \<open>m2\<close> has, in \<open>m2\<close>'s order: the result is a function of the two
  maps.
\<close>

theorem joinMaps_union:
  assumes "distinct (map fst m1)" and "distinct (map fst m2)"
  shows "joinMaps m1 m2 (pureJoin f) () = Inr (unionInOrder f m1 m2, ())
   \<and> joinMaps m2 m1 (pureJoin (\<lambda>k a b. f k b a)) ()
       = Inr (unionInOrder (\<lambda>k a b. f k b a) m2 m1, ())
   \<and> set (map fst (unionInOrder f m1 m2)) = set (map fst m1) \<union> set (map fst m2)
   \<and> set (map fst (unionInOrder (\<lambda>k a b. f k b a) m2 m1)) = set (map fst m1) \<union> set (map fst m2)
   \<and> (\<forall>k \<in> set (map fst m1) \<union> set (map fst m2).
        map_of (unionInOrder f m1 m2) k = Some (f k (mapGet m1 k) (mapGet m2 k))
        \<and> map_of (unionInOrder (\<lambda>k a b. f k b a) m2 m1) k
            = Some (f k (mapGet m1 k) (mapGet m2 k)))
   \<and> map fst (unionInOrder f m1 m2)
       = map fst m1 @ filter (\<lambda>k. k \<notin> set (map fst m1)) (map fst m2)
   \<and> distinct (map fst (unionInOrder f m1 m2))"
proof -
  have "set (map fst (unionInOrder g a b)) = set (map fst a) \<union> set (map fst b)"
    for g :: "'a \<Rightarrow> 'b option \<Rightarrow> 'b option \<Rightarrow> 'b option" and a b
    unfolding unionInOrder_keys by auto
  moreover have "\<forall>k \<in> set (map fst m1) \<union> set (map fst m2).
        map_of (unionInOrder f m1 m2) k = Some (f k (mapGet m1 k) (mapGet m2 k))
        \<and> map_of (unionInOrder (\<lambda>k a b. f k b a) m2 m1) k
            = Some (f k (mapGet m1 k) (mapGet m2 k))"
    using unionInOrder_value [OF assms, of _ f]
      unionInOrder_value [OF assms(2) assms(1), of _ "\<lambda>k a b. f k b a"]
    by auto
  ultimately show ?thesis
    using joinMaps_pure [OF assms, of f]
      joinMaps_pure [OF assms(2) assms(1), of "\<lambda>k a b. f k b a"]
      unionInOrder_keys [of f m1 m2] unionInOrder_distinct [OF assms, of f]
    by auto
qed

theorem joinMaps_union_witness:
  "distinct (map fst [(1::nat, Some (10::nat)), (2, Some 20)])
   \<and> distinct (map fst [(3::nat, Some (30::nat)), (1, Some 11)])
   \<and> joinMaps [(1::nat, Some (10::nat)), (2, Some 20)] [(3, Some 30), (1, Some 11)]
       (pureJoin (\<lambda>k a b. if a = None then b else a)) ()
     = Inr ([(1, Some 10), (2, Some 20), (3, Some 30)], ())
   \<and> joinMaps [(3::nat, Some (30::nat)), (1, Some 11)] [(1, Some 10), (2, Some 20)]
       (pureJoin (\<lambda>k a b. if b = None then a else b)) ()
     = Inr ([(3, Some 30), (1, Some 10), (2, Some 20)], ())"
  using joinMaps_union [of "[(1::nat, Some (10::nat)), (2, Some 20)]"
      "[(3::nat, Some (30::nat)), (1, Some 11)]" "\<lambda>k a b. if a = None then b else a"]
  by (auto simp add: unionInOrder_def mapGet_def mapHas_def)

subsection \<open>Property bindings\<close>

lemma mapSet_map_of: "map_of (mapSet m k v) = (map_of m)(k \<mapsto> v)"
  by (induction m) (auto simp: fun_eq_iff)

lemma joinDescriptors_both:
  "joinDescriptors R c (Some d1) (Some d2) =
     (if equalDescriptors R d1 d2 \<and> IsDataDescriptor R d1 then
        andThen (joinValues R (dvalue d1) (dvalue d2) (getAbstractValue_conditional R c))
          (\<lambda>v. Inr (Some (set_value d1 (Some v))))
      else Inr (Some (Descriptor None None None None None None (Some c) (Some d1) (Some d2))))"
  by (simp add: joinDescriptors_def cloneDescriptor_def emptyDescriptor_def)

lemma dvalue_set_value [simp]: "dvalue (set_value d v) = v"
  by (cases d) simp

lemma joinPropertyBindings_join_deleted:
  assumes "pb_descriptor b = Some pre" "mapHas m2 b" "pb_object b \<notin> c1"
  shows "joinPropertyBindings_join R c m1 m2 c1 c2 b (Some w) None
         = joinDescriptors R c (Some w) (Some (set_value pre (Some (Val (intrinsics_empty R)))))"
  using assms
  by (simp add: joinPropertyBindings_join_def deletedDescriptor_def cloneDescriptor_def)

lemma joinDescriptors_written_deleted:
  assumes "dvalue w = Some (Val x)"
  shows "joinDescriptors R c (Some w) (Some (set_value pre (Some (Val (intrinsics_empty R)))))
         = writtenOrAbsent R c w x pre"
  using assms
  by (simp add: joinDescriptors_both writtenOrAbsent_def joinValues_values
      getAbstractValue_conditional_def Let_def)
     (cases "createFromConditionalOp R c (Some x) (Some (intrinsics_empty R))"; simp)

text \<open>The first loop of joinMaps with a callback that may throw but does not assign.\<close>

lemma first_loop_lookup:
  assumes "forEach (\<lambda>(key, val1) (m3, s).
        let val2 = mapGet m2 key in
        andThen ((\<lambda>b d1 d2 s. andThen (j b d1 d2) (\<lambda>d. Inr (d, s))) key val1 val2 s)
          (\<lambda>(val3, s'). Inr (mapSet m3 key val3, s')))
      xs (acc, u) = Inr (m3, u')"
    and "distinct (map fst xs)"
  shows "(\<forall>k v1. (k, v1) \<in> set xs \<longrightarrow>
            (\<exists>r. j k v1 (mapGet m2 k) = Inr r \<and> map_of m3 k = Some r))
         \<and> (\<forall>k. k \<notin> set (map fst xs) \<longrightarrow> map_of m3 k = map_of acc k)"
  using assms
proof (induction xs arbitrary: acc u)
  case Nil
  then show ?case by simp
next
  case (Cons x xs)
  obtain k0 v0 where x: "x = (k0, v0)" by (cases x)
  from Cons.prems(1) obtain r0 where r0: "j k0 v0 (mapGet m2 k0) = Inr r0"
    by (cases "j k0 v0 (mapGet m2 k0)") (simp_all add: x)
  with Cons.prems(1) have rest: "forEach (\<lambda>(key, val1) (m3, s).
        let val2 = mapGet m2 key in
        andThen ((\<lambda>b d1 d2 s. andThen (j b d1 d2) (\<lambda>d. Inr (d, s))) key val1 val2 s)
          (\<lambda>(val3, s'). Inr (mapSet m3 key val3, s')))
      xs (mapSet acc k0 r0, u) = Inr (m3, u')"
    by (simp add: x)
  from Cons.prems(2) have d: "distinct (map fst xs)" and k0: "k0 \<notin> set (map fst xs)"
    by (simp_all add: x)
  note IH = Cons.IH [OF rest d]
  from IH k0 have "map_of m3 k0 = Some r0" by (simp add: mapSet_map_of)
  with IH r0 show ?case
    by (auto simp: x mapSet_map_of)
qed

lemma second_loop_lookup:
  assumes "forEach (\<lambda>(key, val2) (m3, s).
        if \<not> mapHas m1 key
        then andThen ((\<lambda>b d1 d2 s. andThen (j b d1 d2) (\<lambda>d. Inr (d, s))) key None val2 s)
               (\<lambda>(val3, s'). Inr (mapSet m3 key val3, s'))
        else Inr (m3, s))
      xs (acc, u) = Inr (m3, u')"
    and "mapHas m1 k"
  shows "map_of m3 k = map_of acc k"
  using assms
proof (induction xs arbitrary: acc u)
  case Nil
  then show ?case by simp
next
  case (Cons x xs)
  obtain k0 v0 where x: "x = (k0, v0)" by (cases x)
  show ?case
  proof (cases "mapHas m1 k0")
    case True
    with Cons.prems have "forEach (\<lambda>(key, val2) (m3, s).
        if \<not> mapHas m1 key
        then andThen ((\<lambda>b d1 d2 s. andThen (j b d1 d2) (\<lambda>d. Inr (d, s))) key None val2 s)
               (\<lambda>(val3, s'). Inr (mapSet m3 key val3, s'))
        else Inr (m3, s))
      xs (acc, u) = Inr (m3, u')" by (simp add: x)
    from Cons.IH [OF this Cons.prems(2)] show ?thesis .
  next
    case False
    with Cons.prems(1) obtain r0 where r0: "j k0 None v0 = Inr r0"
      by (cases "j k0 None v0") (simp_all add: x)
    with Cons.prems(1) False have "forEach (\<lambda>(key, val2) (m3, s).
        if \<not> mapHas m1 key
        then andThen ((\<lambda>b d1 d2 s. andThen (j b d1 d2) (\<lambda>d. Inr (d, s))) key None val2 s)
               (\<lambda>(val3, s'). Inr (mapSet m3 key val3, s'))
        else Inr (m3, s))
      xs (mapSet acc k0 r0, u) = Inr (m3, u')" by (simp add: x)
    from Cons.IH [OF this Cons.prems(2)] False Cons.prems(2) show ?thesis
      by (auto simp: mapSet_map_of)
  qed
qed

lemma joinPropertyBindings_lookup:
  assumes ok: "joinPropertyBindings R c m1 m2 c1 c2 = Inr m3"
    and d: "distinct (map fst m1)" and k: "(b, d1) \<in> set m1"
  shows "\<exists>r. joinPropertyBindings_join R c m1 m2 c1 c2 b d1 (mapGet m2 b) = Inr r
             \<and> map_of m3 b = Some r"
proof -
  let ?j = "joinPropertyBindings_join R c m1 m2 c1 c2"
  let ?f1 = "(\<lambda>(key, val1) (m3, s).
        let val2 = mapGet m2 key in
        andThen ((\<lambda>b d1 d2 s. andThen (?j b d1 d2) (\<lambda>d. Inr (d, s))) key val1 val2 s)
          (\<lambda>(val3, s'). Inr (mapSet m3 key val3, s')))"
  let ?f2 = "(\<lambda>(key, val2) (m3, s).
        if \<not> mapHas m1 key
        then andThen ((\<lambda>b d1 d2 s. andThen (?j b d1 d2) (\<lambda>d. Inr (d, s))) key None val2 s)
               (\<lambda>(val3, s'). Inr (mapSet m3 key val3, s'))
        else Inr (m3, s))"
  from ok obtain mid where first: "forEach ?f1 m1 ([], ()) = Inr (mid, ())"
    and second: "forEach ?f2 m2 (mid, ()) = Inr (m3, ())"
    unfolding joinPropertyBindings_def joinMaps_def
    by (cases "forEach ?f1 m1 ([], ())") (auto simp: andThen_def split: sum.splits)
  from first_loop_lookup [where j = ?j, OF first d] k obtain r where
    r: "?j b d1 (mapGet m2 b) = Inr r" "map_of mid b = Some r" by blast
  from k have "mapHas m1 b" by (force simp: mapHas_def)
  from second_loop_lookup [where j = ?j, OF second this] r show ?thesis by simp
qed

lemma joinPropertyBindings_join_deleted_first:
  assumes "pb_descriptor b = Some pre" "mapHas m1 b" "pb_object b \<notin> c2"
  shows "joinPropertyBindings_join R c m1 m2 c1 c2 b None (Some w)
         = joinDescriptors R c (Some (set_value pre (Some (Val (intrinsics_empty R))))) (Some w)"
  using assms
  by (simp add: joinPropertyBindings_join_def deletedDescriptor_def cloneDescriptor_def)

lemma joinDescriptors_deleted_written:
  assumes "dvalue w = Some (Val x)"
  shows "joinDescriptors R c (Some (set_value pre (Some (Val (intrinsics_empty R))))) (Some w)
         = absentOrWritten R c pre w x"
  using assms
  by (simp add: joinDescriptors_both absentOrWritten_def joinValues_values
      getAbstractValue_conditional_def Let_def)
     (cases "createFromConditionalOp R c (Some (intrinsics_empty R)) (Some x)"; simp)

text \<open>
  C5.  For a heap slot \<open>b\<close> with a pre-fork descriptor \<open>pre\<close>, where one branch
  recorded a write (the descriptor \<open>w\<close> with the value \<open>x\<close>) and the map of the
  other branch holds the slot with no descriptor (the deletion marker); the object of the
  slot existed before the fork, so it is not among the objects the writing branch
  created.  Then \<open>joinPropertyBindings\<close> joins \<open>w\<close> with the descriptor it
  synthesizes for the deleting side, the pre-fork descriptor with the value \<open>empty\<close>;
  \<open>joinDescriptors\<close> of the two is the descriptor whose two sides are the written value
  and \<open>empty\<close>; and that is what the joined map holds for the slot whenever the join of
  the maps returns.  Both orders of the two branches are covered.
\<close>

theorem joinPropertyBindings_write_and_delete:
  assumes "pb_descriptor b = Some pre" and "dvalue w = Some (Val x)"
    and "distinct (map fst m1)" and "distinct (map fst m2)"
  shows
   "((b, Some w) \<in> set m1 \<and> (b, None) \<in> set m2 \<and> pb_object b \<notin> c1 \<longrightarrow>
       joinPropertyBindings_join R c m1 m2 c1 c2 b (Some w) (mapGet m2 b)
         = joinDescriptors R c (Some w)
             (Some (set_value pre (Some (Val (intrinsics_empty R)))))
       \<and> joinDescriptors R c (Some w) (Some (set_value pre (Some (Val (intrinsics_empty R)))))
         = writtenOrAbsent R c w x pre
       \<and> (\<forall>m3. joinPropertyBindings R c m1 m2 c1 c2 = Inr m3 \<longrightarrow>
            (\<exists>r. writtenOrAbsent R c w x pre = Inr r \<and> map_of m3 b = Some r)))
    \<and> ((b, None) \<in> set m1 \<and> (b, Some w) \<in> set m2 \<and> pb_object b \<notin> c2 \<longrightarrow>
       joinPropertyBindings_join R c m1 m2 c1 c2 b None (mapGet m2 b)
         = joinDescriptors R c (Some (set_value pre (Some (Val (intrinsics_empty R)))))
             (Some w)
       \<and> joinDescriptors R c (Some (set_value pre (Some (Val (intrinsics_empty R))))) (Some w)
         = absentOrWritten R c pre w x
       \<and> (\<forall>m3. joinPropertyBindings R c m1 m2 c1 c2 = Inr m3 \<longrightarrow>
            (\<exists>r. absentOrWritten R c pre w x = Inr r \<and> map_of m3 b = Some r)))"
proof (intro conjI impI)
  assume a: "(b, Some w) \<in> set m1 \<and> (b, None) \<in> set m2 \<and> pb_object b \<notin> c1"
  then have has: "mapHas m2 b" by (force simp: mapHas_def)
  from a assms(4) have get: "mapGet m2 b = None" by (simp add: mapGet_distinct)
  show j: "joinPropertyBindings_join R c m1 m2 c1 c2 b (Some w) (mapGet m2 b)
         = joinDescriptors R c (Some w)
             (Some (set_value pre (Some (Val (intrinsics_empty R)))))"
    unfolding get using joinPropertyBindings_join_deleted [OF assms(1) has] a by blast
  show d: "joinDescriptors R c (Some w) (Some (set_value pre (Some (Val (intrinsics_empty R)))))
         = writtenOrAbsent R c w x pre"
    by (rule joinDescriptors_written_deleted [OF assms(2)])
  show "\<forall>m3. joinPropertyBindings R c m1 m2 c1 c2 = Inr m3 \<longrightarrow>
            (\<exists>r. writtenOrAbsent R c w x pre = Inr r \<and> map_of m3 b = Some r)"
    using joinPropertyBindings_lookup [OF _ assms(3), of R c m2 c1 c2 _ b "Some w"] a j d
    by auto
next
  assume a: "(b, None) \<in> set m1 \<and> (b, Some w) \<in> set m2 \<and> pb_object b \<notin> c2"
  then have has: "mapHas m1 b" by (force simp: mapHas_def)
  from a assms(4) have get: "mapGet m2 b = Some w" by (simp add: mapGet_distinct)
  show j: "joinPropertyBindings_join R c m1 m2 c1 c2 b None (mapGet m2 b)
         = joinDescriptors R c (Some (set_value pre (Some (Val (intrinsics_empty R)))))
             (Some w)"
    unfolding get using joinPropertyBindings_join_deleted_first [OF assms(1) has] a by blast
  show d: "joinDescriptors R c (Some (set_value pre (Some (Val (intrinsics_empty R))))) (Some w)
         = absentOrWritten R c pre w x"
    by (rule joinDescriptors_deleted_written [OF assms(2)])
  show "\<forall>m3. joinPropertyBindings R c m1 m2 c1 c2 = Inr m3 \<longrightarrow>
            (\<exists>r. absentOrWritten R c pre w x = Inr r \<and> map_of m3 b = Some r)"
    using joinPropertyBindings_lookup [OF _ assms(3), of R c m2 c1 c2 _ b None] a j d
    by auto
qed

lemma sample_write_delete:
  "joinPropertyBindings sampleRealm (AbstractValue 0)
       [(sampleSlot, Some sampleWritten)] [(sampleSlot, None)] {} {}
     = Inr [(sampleSlot, Some (Descriptor (Some True) (Some True) (Some True)
          (Some (Val (ConditionalValue (AbstractValue 0) (Some (NumberValue 2 (Finite 5)))
             (Some EmptyValue)))) None None None None None))]"
  by (simp add: joinPropertyBindings_def joinMaps_def joinPropertyBindings_join_def
      deletedDescriptor_def cloneDescriptor_def joinDescriptors_both mapGet_def mapHas_def
      sampleSlot_def sampleRealm_def sampleWritten_def samplePre_def joinValues_values
      sample_equalDescriptors_def sample_IsDataDescriptor_def getAbstractValue_conditional_def)

theorem joinPropertyBindings_write_and_delete_witness:
  "pb_descriptor sampleSlot = Some samplePre
   \<and> dvalue sampleWritten = Some (Val (NumberValue 2 (Finite 5)))
   \<and> distinct (map fst [(sampleSlot, Some sampleWritten)])
   \<and> distinct (map fst [(sampleSlot, None :: sample descriptor option)])
   \<and> (sampleSlot, Some sampleWritten) \<in> set [(sampleSlot, Some sampleWritten)]
   \<and> (sampleSlot, None) \<in> set [(sampleSlot, None :: sample descriptor option)]
   \<and> pb_object sampleSlot \<notin> ({} :: sample set)
   \<and> joinPropertyBindings sampleRealm (AbstractValue 0)
       [(sampleSlot, Some sampleWritten)] [(sampleSlot, None)] {} {}
     = Inr [(sampleSlot, Some (Descriptor (Some True) (Some True) (Some True)
          (Some (Val (ConditionalValue (AbstractValue 0) (Some (NumberValue 2 (Finite 5)))
             (Some EmptyValue)))) None None None None None))]
   \<and> writtenOrAbsent sampleRealm (AbstractValue 0) sampleWritten (NumberValue 2 (Finite 5))
       samplePre
     = Inr (Some (Descriptor (Some True) (Some True) (Some True)
          (Some (Val (ConditionalValue (AbstractValue 0) (Some (NumberValue 2 (Finite 5)))
             (Some EmptyValue)))) None None None None None))"
proof -
  have pre: "pb_descriptor sampleSlot = Some samplePre" by (simp add: sampleSlot_def)
  have w: "dvalue sampleWritten = Some (Val (NumberValue 2 (Finite 5)))"
    by (simp add: sampleWritten_def)
  have d1: "distinct (map fst [(sampleSlot, Some sampleWritten)])" by simp
  have d2: "distinct (map fst [(sampleSlot, None :: sample descriptor option)])" by simp
  note t = joinPropertyBindings_write_and_delete [OF pre w d1 d2,
      where R = sampleRealm and c = "AbstractValue 0" and ?c1.0 = "{}" and ?c2.0 = "{}"]
  from t sample_write_delete pre w show ?thesis by auto
qed

subsection \<open>Forks with one abrupt side\<close>

lemma lookupEffects_Inr: "lookupEffects h a = Inr x \<Longrightarrow> a < length (effectsStore h) \<and> x = effectsStore h ! a"
  by (auto simp: lookupEffects_def split: if_splits)

lemma lookupGenerator_Inr:
  "lookupGenerator h a = Inr x \<Longrightarrow> a < length (generatorStore h) \<and> x = generatorStore h ! a"
  by (auto simp: lookupGenerator_def split: if_splits)

lemma andThen_Inr: "andThen m f = Inr y \<Longrightarrow> \<exists>x. m = Inr x \<and> f x = Inr y"
  by (cases m) simp_all

lemma construct_empty_effects_eq:
  "construct_empty_effects R h =
     (length (effectsStore h),
      \<lparr>effectsStore = effectsStore h @
         [\<lparr>result = SimpleNormalCompletion (intrinsics_empty R) (Some (length (effectsStore h))),
           generator = length (generatorStore h), modifiedBindings = [],
           modifiedProperties = [], createdObjects = {}\<rparr>],
       generatorStore = generatorStore h @
         [\<lparr>g_name = ''construct_empty_effects'', g_pathConditions = pathConditions R,
           g_entries = []\<rparr>]\<rparr>)"
  by (simp add: construct_empty_effects_def newGenerator_def newEffects_def Let_def)

lemma joinOrForkResults_abrupt_first:
  fixes R :: "'v realm"
  assumes "isAbruptCompletion r1" "\<not> isAbruptCompletion r2"
    and "joinOrForkResults R c r1 r2 e1 e2 h = Inr (res, h1)"
  shows "h1 = h \<and> (\<exists>v. res = PossiblyNormalCompletion v c r1 r2 (c_savedPathConditions r2)
                           (c_savedEffects r2) None)"
proof -
  from assms(1) have n1: "\<not> isSimpleNormalCompletion r1" "\<not> isNormalCompletion r1" "\<not> isReference r1"
    by (cases r1; simp add: isNormalCompletion_def)+
  obtain E1 where E1: "lookupEffects h e1 = Inr E1"
  proof (cases "lookupEffects h e1")
    case (Inl a)
    from Inl assms(3) show ?thesis by (simp add: joinOrForkResults_def)
  qed
  obtain E2 where E2: "lookupEffects h e2 = Inr E2"
  proof (cases "lookupEffects h e2")
    case (Inl a)
    from E1 Inl assms(3) show ?thesis by (simp add: joinOrForkResults_def)
  qed
  have *: "andThen (if isPossiblyNormalCompletion r2 then getNormalCompletion R r2
                  else Inr r2) (\<lambda>completion.
           case completion of
             SimpleNormalCompletion v ef \<Rightarrow>
               Inr (PossiblyNormalCompletion v c r1 r2
                      (c_savedPathConditions r2) (c_savedEffects r2) None, h)
           | _ \<Rightarrow> Inl InvariantViolation) = Inr (res, h1)"
    using E1 E2 n1 assms unfolding joinOrForkResults_def
    by (simp split: if_splits)
  show ?thesis
  proof (cases "if isPossiblyNormalCompletion r2 then getNormalCompletion R r2 else Inr r2")
    case (Inl a)
    from Inl * show ?thesis by simp
  next
    case (Inr completion)
    from Inr * show ?thesis by (cases completion) auto
  qed
qed

lemma joinOrForkResults_abrupt_second:
  fixes R :: "'v realm"
  assumes "\<not> isAbruptCompletion r1" "isAbruptCompletion r2"
    and "joinOrForkResults R c r1 r2 e1 e2 h = Inr (res, h1)"
  shows "h1 = h \<and> (\<exists>v. res = PossiblyNormalCompletion v c r1 r2 (c_savedPathConditions r1)
                           (c_savedEffects r1) None)"
proof -
  from assms(2) have n2: "\<not> isSimpleNormalCompletion r2" "\<not> isNormalCompletion r2" "\<not> isReference r2"
    by (cases r2; simp add: isNormalCompletion_def)+
  obtain E1 where E1: "lookupEffects h e1 = Inr E1"
  proof (cases "lookupEffects h e1")
    case (Inl a)
    from Inl assms(3) show ?thesis by (simp add: joinOrForkResults_def)
  qed
  obtain E2 where E2: "lookupEffects h e2 = Inr E2"
  proof (cases "lookupEffects h e2")
    case (Inl a)
    from E1 Inl assms(3) show ?thesis by (simp add: joinOrForkResults_def)
  qed
  have *: "andThen (if isPossiblyNormalCompletion r1 then getNormalCompletion R r1
                  else Inr r1) (\<lambda>completion.
           case completion of
             SimpleNormalCompletion v ef \<Rightarrow>
               Inr (PossiblyNormalCompletion v c r1 r2
                      (c_savedPathConditions r1) (c_savedEffects r1) None, h)
           | _ \<Rightarrow> Inl InvariantViolation) = Inr (res, h1)"
    using E1 E2 n2 assms unfolding joinOrForkResults_def
    by (simp split: if_splits)
  show ?thesis
  proof (cases "if isPossiblyNormalCompletion r1 then getNormalCompletion R r1 else Inr r1")
    case (Inl a)
    from Inl * show ?thesis by simp
  next
    case (Inr completion)
    from Inr * show ?thesis by (cases completion) auto
  qed
qed

lemma joinForkOrChoose_abrupt_first:
  fixes R :: "'v realm"
  assumes c: "mightNotBeTrue R c" "mightNotBeFalse R c"
    and ret: "joinForkOrChoose R c e1 e2 h = Inr (e, h')"
    and ab: "isAbruptCompletion (result (effectsStore h ! e1))"
            "\<not> isAbruptCompletion (result (effectsStore h ! e2))"
  shows "e1 < length (effectsStore h) \<and> e2 < length (effectsStore h)
    \<and> e = Suc (length (effectsStore h))
    \<and> (\<exists>v. h' =
         \<lparr>effectsStore =
            (effectsStore h @
              [\<lparr>result = SimpleNormalCompletion (intrinsics_empty R)
                           (Some (length (effectsStore h))),
                generator = length (generatorStore h), modifiedBindings = [],
                modifiedProperties = [], createdObjects = {}\<rparr>])
            [e2 := (effectsStore h ! e2)\<lparr>generator := length (generatorStore h)\<rparr>]
            @ [\<lparr>result = PossiblyNormalCompletion v c (result (effectsStore h ! e1))
                           (result (effectsStore h ! e2))
                           (c_savedPathConditions (result (effectsStore h ! e2)))
                           (c_savedEffects (result (effectsStore h ! e2)))
                           (Some (Suc (length (effectsStore h)))),
                generator = generator (effectsStore h ! e2),
                modifiedBindings = modifiedBindings (effectsStore h ! e2),
                modifiedProperties = modifiedProperties (effectsStore h ! e2),
                createdObjects = createdObjects (effectsStore h ! e2)\<rparr>],
          generatorStore = generatorStore h @
            [\<lparr>g_name = ''construct_empty_effects'', g_pathConditions = pathConditions R,
              g_entries = []\<rparr>]\<rparr>)"
proof -
  let ?n = "length (effectsStore h)"
  let ?EE = "\<lparr>result = SimpleNormalCompletion (intrinsics_empty R) (Some ?n),
                generator = length (generatorStore h), modifiedBindings = [],
                modifiedProperties = [], createdObjects = {}\<rparr> :: 'v Effects"
  let ?h0 = "\<lparr>effectsStore = effectsStore h @ [?EE],
       generatorStore = generatorStore h @
         [\<lparr>g_name = ''construct_empty_effects'', g_pathConditions = pathConditions R,
           g_entries = []\<rparr>]\<rparr> :: 'v heap"
  from c ret have abs: "instanceofAbstractValue R c"
    by (simp add: joinForkOrChoose_def split: if_splits)
  obtain E1 where E1: "lookupEffects h e1 = Inr E1"
  proof (cases "lookupEffects h e1")
    case (Inl a)
    from Inl c abs ret show ?thesis by (simp add: joinForkOrChoose_def)
  qed
  from lookupEffects_Inr [OF E1] have l1: "e1 < ?n" and E1eq: "E1 = effectsStore h ! e1"
    by simp_all
  have ce1: "c_effects (result E1) = Some e1"
  proof (rule ccontr)
    assume "c_effects (result E1) \<noteq> Some e1"
    with E1 c abs ret show False by (simp add: joinForkOrChoose_def Let_def)
  qed
  obtain E2 where E2: "lookupEffects h e2 = Inr E2"
  proof (cases "lookupEffects h e2")
    case (Inl a)
    from Inl E1 ce1 c abs ret show ?thesis by (simp add: joinForkOrChoose_def Let_def)
  qed
  from lookupEffects_Inr [OF E2] have l2: "e2 < ?n" and E2eq: "E2 = effectsStore h ! e2"
    by simp_all
  have ce2: "c_effects (result E2) = Some e2"
  proof (rule ccontr)
    assume "c_effects (result E2) \<noteq> Some e2"
    with E1 E2 ce1 c abs ret show False by (simp add: joinForkOrChoose_def Let_def)
  qed
  have EE: "lookupEffects ?h0 ?n = Inr ?EE"
    by (simp add: lookupEffects_def)
  have E2': "lookupEffects ?h0 e2 = Inr E2"
    using l2 E2eq by (simp add: lookupEffects_def nth_append)
  obtain res h1 where j: "joinOrForkResults R c (result E1) (result E2) e1 e2 ?h0 = Inr (res, h1)"
  proof (cases "joinOrForkResults R c (result E1) (result E2) e1 e2 ?h0")
    case (Inl a)
    from Inl EE E1 E2 ce1 ce2 c abs ret show ?thesis
      by (simp add: joinForkOrChoose_def Let_def construct_empty_effects_eq)
  next
    case (Inr p)
    with that show ?thesis by (cases p) auto
  qed
  from ab E1eq E2eq have ab': "isAbruptCompletion (result E1)" "\<not> isAbruptCompletion (result E2)"
    by simp_all
  from joinOrForkResults_abrupt_first [OF ab' j] obtain v where
    h1: "h1 = ?h0" and res: "res = PossiblyNormalCompletion v c (result E1) (result E2)
       (c_savedPathConditions (result E2)) (c_savedEffects (result E2)) None"
    by blast
  from ret have "Inr (e, h') = joinForkOrChoose R c e1 e2 h" by simp
  also have "\<dots> = Inr (newEffects
        (?h0\<lparr>effectsStore := (effectsStore ?h0)[e2 := E2\<lparr>generator := length (generatorStore h)\<rparr>]\<rparr>)
        res (generator E2) (modifiedBindings E2) (modifiedProperties E2) (createdObjects E2))"
    using EE E1 E2 ce1 ce2 c abs j ab' E2'
    by (simp add: joinForkOrChoose_def Let_def construct_empty_effects_eq h1 res setGenerator_def)
  finally show ?thesis
    using l1 l2 by (auto simp: newEffects_def Let_def res E1eq E2eq)
qed

lemma joinForkOrChoose_abrupt_second:
  fixes R :: "'v realm"
  assumes c: "mightNotBeTrue R c" "mightNotBeFalse R c"
    and ret: "joinForkOrChoose R c e1 e2 h = Inr (e, h')"
    and ab: "\<not> isAbruptCompletion (result (effectsStore h ! e1))"
            "isAbruptCompletion (result (effectsStore h ! e2))"
  shows "e1 < length (effectsStore h) \<and> e2 < length (effectsStore h)
    \<and> e = Suc (length (effectsStore h))
    \<and> (\<exists>v. h' =
         \<lparr>effectsStore =
            (effectsStore h @
              [\<lparr>result = SimpleNormalCompletion (intrinsics_empty R)
                           (Some (length (effectsStore h))),
                generator = length (generatorStore h), modifiedBindings = [],
                modifiedProperties = [], createdObjects = {}\<rparr>])
            [e1 := (effectsStore h ! e1)\<lparr>generator := length (generatorStore h)\<rparr>]
            @ [\<lparr>result = PossiblyNormalCompletion v c (result (effectsStore h ! e1))
                           (result (effectsStore h ! e2))
                           (c_savedPathConditions (result (effectsStore h ! e1)))
                           (c_savedEffects (result (effectsStore h ! e1)))
                           (Some (Suc (length (effectsStore h)))),
                generator = generator (effectsStore h ! e1),
                modifiedBindings = modifiedBindings (effectsStore h ! e1),
                modifiedProperties = modifiedProperties (effectsStore h ! e1),
                createdObjects = createdObjects (effectsStore h ! e1)\<rparr>],
          generatorStore = generatorStore h @
            [\<lparr>g_name = ''construct_empty_effects'', g_pathConditions = pathConditions R,
              g_entries = []\<rparr>]\<rparr>)"
proof -
  let ?n = "length (effectsStore h)"
  let ?EE = "\<lparr>result = SimpleNormalCompletion (intrinsics_empty R) (Some ?n),
                generator = length (generatorStore h), modifiedBindings = [],
                modifiedProperties = [], createdObjects = {}\<rparr> :: 'v Effects"
  let ?h0 = "\<lparr>effectsStore = effectsStore h @ [?EE],
       generatorStore = generatorStore h @
         [\<lparr>g_name = ''construct_empty_effects'', g_pathConditions = pathConditions R,
           g_entries = []\<rparr>]\<rparr> :: 'v heap"
  from c ret have abs: "instanceofAbstractValue R c"
    by (simp add: joinForkOrChoose_def split: if_splits)
  obtain E1 where E1: "lookupEffects h e1 = Inr E1"
  proof (cases "lookupEffects h e1")
    case (Inl a)
    from Inl c abs ret show ?thesis by (simp add: joinForkOrChoose_def)
  qed
  from lookupEffects_Inr [OF E1] have l1: "e1 < ?n" and E1eq: "E1 = effectsStore h ! e1"
    by simp_all
  have ce1: "c_effects (result E1) = Some e1"
  proof (rule ccontr)
    assume "c_effects (result E1) \<noteq> Some e1"
    with E1 c abs ret show False by (simp add: joinForkOrChoose_def Let_def)
  qed
  obtain E2 where E2: "lookupEffects h e2 = Inr E2"
  proof (cases "lookupEffects h e2")
    case (Inl a)
    from Inl E1 ce1 c abs ret show ?thesis by (simp add: joinForkOrChoose_def Let_def)
  qed
  from lookupEffects_Inr [OF E2] have l2: "e2 < ?n" and E2eq: "E2 = effectsStore h ! e2"
    by simp_all
  have ce2: "c_effects (result E2) = Some e2"
  proof (rule ccontr)
    assume "c_effects (result E2) \<noteq> Some e2"
    with E1 E2 ce1 c abs ret show False by (simp add: joinForkOrChoose_def Let_def)
  qed
  have EE: "lookupEffects ?h0 ?n = Inr ?EE"
    by (simp add: lookupEffects_def)
  have E1': "lookupEffects ?h0 e1 = Inr E1"
    using l1 E1eq by (simp add: lookupEffects_def nth_append)
  obtain res h1 where j: "joinOrForkResults R c (result E1) (result E2) e1 e2 ?h0 = Inr (res, h1)"
  proof (cases "joinOrForkResults R c (result E1) (result E2) e1 e2 ?h0")
    case (Inl a)
    from Inl EE E1 E2 ce1 ce2 c abs ret show ?thesis
      by (simp add: joinForkOrChoose_def Let_def construct_empty_effects_eq)
  next
    case (Inr p)
    with that show ?thesis by (cases p) auto
  qed
  from ab E1eq E2eq have ab': "\<not> isAbruptCompletion (result E1)" "isAbruptCompletion (result E2)"
    by simp_all
  from joinOrForkResults_abrupt_second [OF ab' j] obtain v where
    h1: "h1 = ?h0" and res: "res = PossiblyNormalCompletion v c (result E1) (result E2)
       (c_savedPathConditions (result E1)) (c_savedEffects (result E1)) None"
    by blast
  from ret have "Inr (e, h') = joinForkOrChoose R c e1 e2 h" by simp
  also have "\<dots> = Inr (newEffects
        (?h0\<lparr>effectsStore := (effectsStore ?h0)[e1 := E1\<lparr>generator := length (generatorStore h)\<rparr>]\<rparr>)
        res (generator E1) (modifiedBindings E1) (modifiedProperties E1) (createdObjects E1))"
    using EE E1 E2 ce1 ce2 c abs j ab' E1'
    by (simp add: joinForkOrChoose_def Let_def construct_empty_effects_eq h1 res setGenerator_def)
  finally show ?thesis
    using l1 l2 by (auto simp: newEffects_def Let_def res E1eq E2eq)
qed

lemma joinOrForkResults_abrupt_simple:
  fixes R :: "'v realm"
  assumes "e1 < length (effectsStore h)" "e2 < length (effectsStore h)"
    and "c_effects r1 = Some e1" "c_effects r2 = Some e2"
    and "result (effectsStore h ! e1) = r1" "result (effectsStore h ! e2) = r2"
  shows "isAbruptCompletion r1 \<Longrightarrow> r2 = SimpleNormalCompletion v ef \<Longrightarrow>
           joinOrForkResults R c r1 r2 e1 e2 h
             = Inr (PossiblyNormalCompletion v c r1 r2 [] None None, h)"
    and "r1 = SimpleNormalCompletion v ef \<Longrightarrow> isAbruptCompletion r2 \<Longrightarrow>
           joinOrForkResults R c r1 r2 e1 e2 h
             = Inr (PossiblyNormalCompletion v c r1 r2 [] None None, h)"
  using assms
  by (cases r1; simp add: joinOrForkResults_def lookupEffects_def isNormalCompletion_def;
      cases r2; simp add: joinOrForkResults_def lookupEffects_def isNormalCompletion_def)+

lemma joinForkOrChoose_one_abrupt_returns:
  fixes R :: "'v realm"
  assumes c: "mightNotBeTrue R c" "mightNotBeFalse R c" "instanceofAbstractValue R c"
    and l: "e1 < length (effectsStore h)" "e2 < length (effectsStore h)"
    and ce: "c_effects (result (effectsStore h ! e1)) = Some e1"
            "c_effects (result (effectsStore h ! e2)) = Some e2"
    and ab: "(isAbruptCompletion (result (effectsStore h ! e1))
              \<and> isSimpleNormalCompletion (result (effectsStore h ! e2)))
             \<or> (isSimpleNormalCompletion (result (effectsStore h ! e1))
              \<and> isAbruptCompletion (result (effectsStore h ! e2)))"
  shows "\<exists>e h'. joinForkOrChoose R c e1 e2 h = Inr (e, h')"
proof -
  let ?n = "length (effectsStore h)"
  let ?EE = "\<lparr>result = SimpleNormalCompletion (intrinsics_empty R) (Some ?n),
                generator = length (generatorStore h), modifiedBindings = [],
                modifiedProperties = [], createdObjects = {}\<rparr> :: 'v Effects"
  let ?h0 = "\<lparr>effectsStore = effectsStore h @ [?EE],
       generatorStore = generatorStore h @
         [\<lparr>g_name = ''construct_empty_effects'', g_pathConditions = pathConditions R,
           g_entries = []\<rparr>]\<rparr> :: 'v heap"
  let ?r1 = "result (effectsStore h ! e1)" and ?r2 = "result (effectsStore h ! e2)"
  have l0: "e1 < length (effectsStore ?h0)" "e2 < length (effectsStore ?h0)"
    using l by simp_all
  have r0: "result (effectsStore ?h0 ! e1) = ?r1" "result (effectsStore ?h0 ! e2) = ?r2"
    using l by (simp_all add: nth_append)
  from ab show ?thesis
  proof
    assume a: "isAbruptCompletion ?r1 \<and> isSimpleNormalCompletion ?r2"
    then obtain v ef where v: "?r2 = SimpleNormalCompletion v ef" by (cases ?r2) auto
    from a v have na: "\<not> isAbruptCompletion ?r2" by simp
    from joinOrForkResults_abrupt_simple(1) [OF l0 ce r0, of v ef R c] a v
    have "joinOrForkResults R c ?r1 ?r2 e1 e2 ?h0
            = Inr (PossiblyNormalCompletion v c ?r1 ?r2 [] None None, ?h0)" by simp
    with c l ce a na show ?thesis
      by (simp add: joinForkOrChoose_def Let_def construct_empty_effects_eq lookupEffects_def
          setGenerator_def nth_append newEffects_def)
  next
    assume a: "isSimpleNormalCompletion ?r1 \<and> isAbruptCompletion ?r2"
    then obtain v ef where v: "?r1 = SimpleNormalCompletion v ef" by (cases ?r1) auto
    from a v have na: "\<not> isAbruptCompletion ?r1" by simp
    from joinOrForkResults_abrupt_simple(2) [OF l0 ce r0, of v ef R c] a v
    have "joinOrForkResults R c ?r1 ?r2 e1 e2 ?h0
            = Inr (PossiblyNormalCompletion v c ?r1 ?r2 [] None None, ?h0)" by simp
    with c l ce a na show ?thesis
      by (simp add: joinForkOrChoose_def Let_def construct_empty_effects_eq lookupEffects_def
          setGenerator_def nth_append newEffects_def)
  qed
qed

text \<open>
  C2 (as amended).  For a join condition that might be true and might be false, and two
  effects of which exactly one has an abrupt result (\<open>a\<close> is that one, \<open>n\<close> the
  other): when \<open>joinForkOrChoose\<close> returns, it returns a new \<open>Effects\<close> object whose
  result is a \<open>PossiblyNormalCompletion\<close> over the two results, and which carries the
  generator, bindings, properties and created objects of the side \<open>n\<close>; it is the
  effects object of the side \<open>n\<close>, whose generator has moved to the returned object,
  that is given a new empty generator; the effects object of the abrupt side is left as
  it was, its generator included, and no generator's content is changed.  It does return
  when the condition is abstract, the two effects are the effects of their results, and
  the result of the side \<open>n\<close> is a \<open>SimpleNormalCompletion\<close>.
\<close>

theorem joinForkOrChoose_one_abrupt_side:
  fixes R :: "'v realm"
  assumes "mightNotBeTrue R c" and "mightNotBeFalse R c"
    and "(isAbruptCompletion (result (effectsStore h ! e1))
            \<and> \<not> isAbruptCompletion (result (effectsStore h ! e2)) \<and> a = e1 \<and> n = e2)
         \<or> (\<not> isAbruptCompletion (result (effectsStore h ! e1))
            \<and> isAbruptCompletion (result (effectsStore h ! e2)) \<and> a = e2 \<and> n = e1)"
  shows
   "(\<forall>e h'. joinForkOrChoose R c e1 e2 h = Inr (e, h') \<longrightarrow>
       e = Suc (length (effectsStore h))
       \<and> (\<exists>v p s. result (effectsStore h' ! e) =
             PossiblyNormalCompletion v c (result (effectsStore h ! e1))
               (result (effectsStore h ! e2)) p s (Some e))
       \<and> generator (effectsStore h' ! e) = generator (effectsStore h ! n)
       \<and> modifiedBindings (effectsStore h' ! e) = modifiedBindings (effectsStore h ! n)
       \<and> modifiedProperties (effectsStore h' ! e) = modifiedProperties (effectsStore h ! n)
       \<and> createdObjects (effectsStore h' ! e) = createdObjects (effectsStore h ! n)
       \<and> effectsStore h' ! n = (effectsStore h ! n)\<lparr>generator := length (generatorStore h)\<rparr>
       \<and> effectsStore h' ! a = effectsStore h ! a
       \<and> generatorStore h' = generatorStore h @
            [\<lparr>g_name = ''construct_empty_effects'', g_pathConditions = pathConditions R,
              g_entries = []\<rparr>])
    \<and> (instanceofAbstractValue R c
        \<and> e1 < length (effectsStore h) \<and> e2 < length (effectsStore h)
        \<and> c_effects (result (effectsStore h ! e1)) = Some e1
        \<and> c_effects (result (effectsStore h ! e2)) = Some e2
        \<and> isSimpleNormalCompletion (result (effectsStore h ! n)) \<longrightarrow>
          (\<exists>e h'. joinForkOrChoose R c e1 e2 h = Inr (e, h')))"
proof (intro conjI allI impI)
  fix e h'
  assume ret: "joinForkOrChoose R c e1 e2 h = Inr (e, h')"
  from assms(3)
  have "e = Suc (length (effectsStore h))
       \<and> (\<exists>v p s. result (effectsStore h' ! e) =
             PossiblyNormalCompletion v c (result (effectsStore h ! e1))
               (result (effectsStore h ! e2)) p s (Some e))
       \<and> generator (effectsStore h' ! e) = generator (effectsStore h ! n)
       \<and> modifiedBindings (effectsStore h' ! e) = modifiedBindings (effectsStore h ! n)
       \<and> modifiedProperties (effectsStore h' ! e) = modifiedProperties (effectsStore h ! n)
       \<and> createdObjects (effectsStore h' ! e) = createdObjects (effectsStore h ! n)
       \<and> effectsStore h' ! n = (effectsStore h ! n)\<lparr>generator := length (generatorStore h)\<rparr>
       \<and> effectsStore h' ! a = effectsStore h ! a
       \<and> generatorStore h' = generatorStore h @
            [\<lparr>g_name = ''construct_empty_effects'', g_pathConditions = pathConditions R,
              g_entries = []\<rparr>]"
  proof
    assume A: "isAbruptCompletion (result (effectsStore h ! e1))
            \<and> \<not> isAbruptCompletion (result (effectsStore h ! e2)) \<and> a = e1 \<and> n = e2"
    then have ne: "e1 \<noteq> e2" by auto
    from joinForkOrChoose_abrupt_first [OF assms(1,2) ret] A ne show ?thesis
      by (auto simp: nth_append nth_list_update)
  next
    assume B: "\<not> isAbruptCompletion (result (effectsStore h ! e1))
            \<and> isAbruptCompletion (result (effectsStore h ! e2)) \<and> a = e2 \<and> n = e1"
    then have ne: "e1 \<noteq> e2" by auto
    from joinForkOrChoose_abrupt_second [OF assms(1,2) ret] B ne show ?thesis
      by (auto simp: nth_append nth_list_update)
  qed
  then show "e = Suc (length (effectsStore h))"
    and "\<exists>v p s. result (effectsStore h' ! e) =
             PossiblyNormalCompletion v c (result (effectsStore h ! e1))
               (result (effectsStore h ! e2)) p s (Some e)"
    and "generator (effectsStore h' ! e) = generator (effectsStore h ! n)"
    and "modifiedBindings (effectsStore h' ! e) = modifiedBindings (effectsStore h ! n)"
    and "modifiedProperties (effectsStore h' ! e) = modifiedProperties (effectsStore h ! n)"
    and "createdObjects (effectsStore h' ! e) = createdObjects (effectsStore h ! n)"
    and "effectsStore h' ! n = (effectsStore h ! n)\<lparr>generator := length (generatorStore h)\<rparr>"
    and "effectsStore h' ! a = effectsStore h ! a"
    and "generatorStore h' = generatorStore h @
            [\<lparr>g_name = ''construct_empty_effects'', g_pathConditions = pathConditions R,
              g_entries = []\<rparr>]"
    by blast+
next
  assume w: "instanceofAbstractValue R c
        \<and> e1 < length (effectsStore h) \<and> e2 < length (effectsStore h)
        \<and> c_effects (result (effectsStore h ! e1)) = Some e1
        \<and> c_effects (result (effectsStore h ! e2)) = Some e2
        \<and> isSimpleNormalCompletion (result (effectsStore h ! n))"
  with assms(3) have "(isAbruptCompletion (result (effectsStore h ! e1))
              \<and> isSimpleNormalCompletion (result (effectsStore h ! e2)))
             \<or> (isSimpleNormalCompletion (result (effectsStore h ! e1))
              \<and> isAbruptCompletion (result (effectsStore h ! e2)))" by auto
  with joinForkOrChoose_one_abrupt_returns [OF assms(1,2), of e1 h e2] w
  show "\<exists>e h'. joinForkOrChoose R c e1 e2 h = Inr (e, h')" by blast
qed

lemma sampleFork_joined:
  "joinForkOrChoose sampleRealm (AbstractValue 0) 0 1 sampleFork = Inr (3, sampleForkJoined)"
  by (simp add: joinForkOrChoose_def sampleRealm_def sampleFork_def sampleForkJoined_def
      lookupEffects_def construct_empty_effects_eq joinOrForkResults_def
      isNormalCompletion_def setGenerator_def newEffects_def Let_def)

theorem joinForkOrChoose_one_abrupt_side_witness:
  "mightNotBeTrue sampleRealm (AbstractValue 0) \<and> mightNotBeFalse sampleRealm (AbstractValue 0)
   \<and> isAbruptCompletion (result (effectsStore sampleFork ! 0))
   \<and> \<not> isAbruptCompletion (result (effectsStore sampleFork ! 1))
   \<and> joinForkOrChoose sampleRealm (AbstractValue 0) 0 1 sampleFork = Inr (3, sampleForkJoined)
   \<and> generator (effectsStore sampleForkJoined ! 3) = generator (effectsStore sampleFork ! 1)
   \<and> effectsStore sampleForkJoined ! 1
       = (effectsStore sampleFork ! 1)\<lparr>generator := length (generatorStore sampleFork)\<rparr>
   \<and> effectsStore sampleForkJoined ! 0 = effectsStore sampleFork ! 0"
proof -
  have a: "mightNotBeTrue sampleRealm (AbstractValue 0)"
    and b: "mightNotBeFalse sampleRealm (AbstractValue 0)"
    by (simp_all add: sampleRealm_def)
  have c: "(isAbruptCompletion (result (effectsStore sampleFork ! 0))
            \<and> \<not> isAbruptCompletion (result (effectsStore sampleFork ! 1)) \<and> (0::nat) = 0
            \<and> (1::nat) = 1)
         \<or> (\<not> isAbruptCompletion (result (effectsStore sampleFork ! 0))
            \<and> isAbruptCompletion (result (effectsStore sampleFork ! 1)) \<and> (0::nat) = 1
            \<and> (1::nat) = 0)"
    by (simp add: sampleFork_def)
  from joinForkOrChoose_one_abrupt_side [OF a b c] sampleFork_joined a b c
  show ?thesis by auto
qed

text \<open>
  The claim as stated fails: after the join of a throwing branch with a normal one, the
  effects object of the throwing branch still has its generator, with its residual
  operation, and it is the effects object of the normal branch that has the new empty
  generator.
\<close>

theorem joinForkOrChoose_abrupt_side_keeps_generator:
  "isAbruptCompletion (result (effectsStore sampleFork ! 0))
   \<and> \<not> isAbruptCompletion (result (effectsStore sampleFork ! 1))
   \<and> joinForkOrChoose sampleRealm (AbstractValue 0) 0 1 sampleFork = Inr (3, sampleForkJoined)
   \<and> generator (effectsStore sampleForkJoined ! 0) = 0
   \<and> g_entries (generatorStore sampleForkJoined ! 0) = [ResidualOperation 1]
   \<and> generator (effectsStore sampleForkJoined ! 1) = 2
   \<and> g_entries (generatorStore sampleForkJoined ! 2) = []"
  using sampleFork_joined by (simp add: sampleFork_def sampleForkJoined_def)

subsection \<open>Leaked bindings\<close>

lemma heapGrows_refl: "heapGrows n h h"
  by (simp add: heapGrows_def)

lemma heapGrows_trans:
  assumes "heapGrows n h1 h2" "heapGrows n h2 h3"
  shows "heapGrows n h1 h3"
proof -
  have "\<exists>es. g_entries (generatorStore h3 ! i) = g_entries (generatorStore h1 ! i) @ es"
    if i: "i < length (generatorStore h1)" for i
  proof -
    from assms(1) i obtain es1 where
      1: "g_entries (generatorStore h2 ! i) = g_entries (generatorStore h1 ! i) @ es1"
      and "i < length (generatorStore h2)"
      by (auto simp: heapGrows_def)
    with assms(2) obtain es2 where
      "g_entries (generatorStore h3 ! i) = g_entries (generatorStore h2 ! i) @ es2"
      by (auto simp: heapGrows_def)
    with 1 show ?thesis by simp
  qed
  with assms show ?thesis by (auto simp: heapGrows_def)
qed

lemma heapGrows_newGenerator:
  "n \<le> length (generatorStore h) \<Longrightarrow> heapGrows n h (snd (newGenerator h name pcs))"
  by (simp add: heapGrows_def newGenerator_def nth_append)

lemma heapGrows_addEntries:
  assumes "addEntries h g es = Inr h'" "n \<le> g"
  shows "heapGrows n h h'
         \<and> length (generatorStore h') = length (generatorStore h)
         \<and> g < length (generatorStore h)
         \<and> g_entries (generatorStore h' ! g) = g_entries (generatorStore h ! g) @ es"
proof -
  from assms(1) have g: "g < length (generatorStore h)"
    and h': "h' = h\<lparr>generatorStore := (generatorStore h)
                [g := (generatorStore h ! g)\<lparr>g_entries := g_entries (generatorStore h ! g) @ es\<rparr>]\<rparr>"
    by (auto simp: addEntries_def lookupGenerator_def split: if_splits)
  have "\<exists>es'. g_entries (generatorStore h' ! i) = g_entries (generatorStore h ! i) @ es'"
    if "i < length (generatorStore h)" for i
    using that by (cases "i = g") (simp_all add: h')
  with g assms(2) show ?thesis
    by (simp add: heapGrows_def h')
qed

lemma wrap_step:
  fixes h :: "'v heap"
  assumes G: "lookupGenerator h g = Inr G" and n: "n \<le> length (generatorStore h)"
    and ret: "(if \<not> generatorEmpty G
               then appendGenerator (snd (newGenerator h name (g_pathConditions G)))
                      (length (generatorStore h)) g
               else Inr (snd (newGenerator h name (g_pathConditions G)))) = Inr h2"
  shows "heapGrows n h h2 \<and> length (generatorStore h2) = Suc (length (generatorStore h))
         \<and> g_entries (generatorStore h2 ! length (generatorStore h)) = g_entries G"
proof -
  let ?h1 = "snd (newGenerator h name (g_pathConditions G))"
  let ?w = "length (generatorStore h)"
  from G have g: "g < length (generatorStore h)" and Geq: "G = generatorStore h ! g"
    by (auto simp: lookupGenerator_def split: if_splits)
  have g1: "heapGrows n h ?h1" by (rule heapGrows_newGenerator [OF n])
  have len1: "length (generatorStore ?h1) = Suc ?w" by (simp add: newGenerator_def)
  have w1: "g_entries (generatorStore ?h1 ! ?w) = []" by (simp add: newGenerator_def)
  show ?thesis
  proof (cases "generatorEmpty G")
    case True
    with ret have "h2 = ?h1" by simp
    with g1 len1 w1 True show ?thesis by (simp add: generatorEmpty_def)
  next
    case False
    have "lookupGenerator ?h1 g = Inr G"
      using g Geq by (simp add: lookupGenerator_def newGenerator_def nth_append)
    with False ret have a: "addEntries ?h1 ?w (g_entries G) = Inr h2"
      by (simp add: appendGenerator_def)
    from heapGrows_addEntries [OF a n] w1 len1 heapGrows_trans [OF g1] show ?thesis
      by auto
  qed
qed

lemma joinBindings_leak_grows:
  fixes h :: "'v heap"
  assumes ret: "joinBindings_leak R b g v rw h = Inr ((g', rw'), h')"
    and n: "n \<le> length (generatorStore h)"
    and rwg: "rw \<longrightarrow> n \<le> g \<and> g < length (generatorStore h)"
  shows "heapGrows n h h' \<and> rw' \<and> n \<le> g' \<and> g' < length (generatorStore h')
     \<and> (rw \<longrightarrow> g' = g) \<and> g < length (generatorStore h)
     \<and> (\<exists>es. g_entries (generatorStore h' ! g') = g_entries (generatorStore h ! g) @ es
             \<and> (\<forall>x. v = Some x \<and> x \<noteq> intrinsics_undefined R \<longrightarrow>
                    BindingAssignment b x \<in> set es))"
proof -
  let ?emit = "\<lambda>(g, rewritten, h).
          case v of
            Some x \<Rightarrow>
              if x \<noteq> intrinsics_undefined R
              then andThen (emitBindingAssignment h g b x) (\<lambda>h'. Inr ((g, rewritten), h'))
              else Inr ((g, rewritten), h)
          | None \<Rightarrow> Inr ((g, rewritten), h)"
  have emit: "heapGrows n hm h' \<and> gm = g' \<and> rm = rw' \<and> gm < length (generatorStore hm)
      \<and> length (generatorStore h') = length (generatorStore hm)
      \<and> (\<exists>es. g_entries (generatorStore h' ! gm) = g_entries (generatorStore hm ! gm) @ es
             \<and> (\<forall>x. v = Some x \<and> x \<noteq> intrinsics_undefined R \<longrightarrow>
                    BindingAssignment b x \<in> set es))"
    if e: "?emit (gm, rm, hm) = Inr ((g', rw'), h')" and gm: "n \<le> gm"
      "gm < length (generatorStore hm)"
    for gm rm and hm :: "'v heap"
  proof (cases "\<exists>x. v = Some x \<and> x \<noteq> intrinsics_undefined R")
    case True
    then obtain x where x: "v = Some x" "x \<noteq> intrinsics_undefined R" by blast
    with e obtain hx where a: "addEntries hm gm [BindingAssignment b x] = Inr hx"
      and r: "g' = gm" "rw' = rm" "h' = hx"
      by (cases "emitBindingAssignment hm gm b x") (auto simp: emitBindingAssignment_def)
    from heapGrows_addEntries [OF a gm(1)] r x show ?thesis by auto
  next
    case False
    with e have "g' = gm" "rw' = rm" "h' = hm"
      by (auto split: option.splits if_splits)
    with gm False show ?thesis by (auto simp: heapGrows_refl)
  qed
  show ?thesis
  proof (cases rw)
    case True
    with ret have "?emit (g, rw, h) = Inr ((g', rw'), h')"
      by (simp add: joinBindings_leak_def)
    from emit [OF this] rwg True show ?thesis by auto
  next
    case False
    obtain G where G: "lookupGenerator h g = Inr G"
    proof (cases "lookupGenerator h g")
      case (Inl a)
      from Inl False ret show ?thesis by (simp add: joinBindings_leak_def)
    qed
    let ?w = "length (generatorStore h)"
    define h1 where "h1 = snd (newGenerator h ''RewrittenToAppendBindingAssignments''
        (g_pathConditions G))"
    have nG: "newGenerator h ''RewrittenToAppendBindingAssignments''
        (g_pathConditions G) = (?w, h1)"
      by (simp add: h1_def newGenerator_def)
    let ?wrap = "if \<not> generatorEmpty G then appendGenerator h1 ?w g else Inr h1"
    obtain h2 where h2: "?wrap = Inr h2"
    proof (cases ?wrap)
      case (Inl a)
      from Inl G False ret show ?thesis
        by (simp add: joinBindings_leak_def nG split: if_splits)
    qed
    from h2 G False ret have e: "?emit (?w, True, h2) = Inr ((g', rw'), h')"
      by (simp add: joinBindings_leak_def nG split: if_splits)
    from wrap_step [OF G n h2 [unfolded h1_def]]
    have w: "heapGrows n h h2"
      "length (generatorStore h2) = Suc ?w" "g_entries (generatorStore h2 ! ?w) = g_entries G"
      by simp_all
    from G have g: "g < length (generatorStore h)" and Geq: "G = generatorStore h ! g"
      by (auto simp: lookupGenerator_def split: if_splits)
    have wlt: "?w < length (generatorStore h2)" using w(2) by simp
    note em = emit [OF e n wlt]
    from em w g Geq n False heapGrows_trans [OF w(1)] show ?thesis by auto
  qed
qed

lemma joinBindings_join_Inr:
  fixes R :: "'v realm"
  assumes ret: "joinBindings_join R c b b1 b2 (g1, rw1, g2, rw2, h) = Inr (r, st')"
    and l1: "l1 = (case b1 of None \<Rightarrow> binding_hasLeaked b | Some e \<Rightarrow> hasLeaked e)"
    and l2: "l2 = (case b2 of None \<Rightarrow> binding_hasLeaked b | Some e \<Rightarrow> hasLeaked e)"
    and v1: "v1 = (case b1 of None \<Rightarrow> binding_value b | Some e \<Rightarrow> entryValue e)"
    and v2: "v2 = (case b2 of None \<Rightarrow> binding_value b | Some e \<Rightarrow> entryValue e)"
  shows "(if \<not> l1 \<and> l2 then
           andThen (joinBindings_leak R b g1 v1 rw1 h)
             (\<lambda>((g1', rewritten1'), h'). Inr (g1', rewritten1', g2, rw2, h'))
         else if l1 \<and> \<not> l2 then
           andThen (joinBindings_leak R b g2 v2 rw2 h)
             (\<lambda>((g2', rewritten2'), h'). Inr (g1, rw1, g2', rewritten2', h'))
         else Inr (g1, rw1, g2, rw2, h)) = Inr st'
     \<and> (\<exists>e. r = Some e \<and> hasLeaked e = (l1 \<or> l2) \<and> (l1 \<or> l2 \<longrightarrow> entryValue e = None)
            \<and> (\<forall>e1. b1 = Some e1 \<longrightarrow> previousHasLeaked e = previousHasLeaked e1
                                   \<and> previousValue e = previousValue e1))"
proof -
  let ?leak = "if \<not> l1 \<and> l2 then
           andThen (joinBindings_leak R b g1 v1 rw1 h)
             (\<lambda>((g1', rewritten1'), h'). Inr (g1', rewritten1', g2, rw2, h'))
         else if l1 \<and> \<not> l2 then
           andThen (joinBindings_leak R b g2 v2 rw2 h)
             (\<lambda>((g2', rewritten2'), h'). Inr (g1, rw1, g2', rewritten2', h'))
         else Inr (g1, rw1, g2, rw2, h)"
  let ?join = "if l1 \<or> l2 then Inr None
         else andThen (joinValues R (map_option Val v1) (map_option Val v2)
                         (getAbstractValue_conditional R c))
                (\<lambda>r. case r of Val v \<Rightarrow> Inr (Some v) | Arr a \<Rightarrow> Inl InvariantViolation)"
  let ?prev = "case b1 of
           Some e1 \<Rightarrow>
             (case b2 of
                None \<Rightarrow> Inr (previousHasLeaked e1, previousValue e1)
              | Some e2 \<Rightarrow>
                  if previousHasLeaked e1 = previousHasLeaked e2
                     \<and> previousValue e1 = previousValue e2
                  then Inr (previousHasLeaked e1, previousValue e1)
                  else (Inl InvariantViolation :: 'v error + (bool option \<times> 'v option)))
         | None \<Rightarrow>
             (case b2 of
                Some e2 \<Rightarrow> Inr (previousHasLeaked e2, previousValue e2)
              | None \<Rightarrow> Inr (None, None))"
  have eq: "joinBindings_join R c b b1 b2 (g1, rw1, g2, rw2, h) =
    andThen ?leak (\<lambda>st'. andThen ?join (\<lambda>joined. andThen ?prev
      (\<lambda>(p, q). Inr (Some \<lparr>hasLeaked = l1 \<or> l2, entryValue = joined,
                  previousHasLeaked = p, previousValue = q\<rparr>, st'))))"
    by (simp add: joinBindings_join_def Let_def l1 l2 v1 v2)
  obtain s where s: "?leak = Inr s"
  proof (cases ?leak)
    case (Inl a)
    from ret show ?thesis unfolding eq Inl by simp
  qed
  obtain j where j: "?join = Inr j"
  proof (cases ?join)
    case (Inl a)
    from ret show ?thesis unfolding eq s Inl by simp
  qed
  obtain p q where p: "?prev = Inr (p, q)"
  proof (cases ?prev)
    case (Inl a)
    from ret show ?thesis unfolding eq s j Inl by simp
  next
    case (Inr x)
    with that show ?thesis by (cases x) auto
  qed
  from ret have r: "r = Some \<lparr>hasLeaked = l1 \<or> l2, entryValue = j,
                  previousHasLeaked = p, previousValue = q\<rparr>" and st': "st' = s"
    unfolding eq s j p by simp_all
  from j have jn: "l1 \<or> l2 \<longrightarrow> j = None" by (auto split: if_splits)
  from p have "\<forall>e1. b1 = Some e1 \<longrightarrow> p = previousHasLeaked e1 \<and> q = previousValue e1"
    by (auto split: option.splits if_splits)
  with r st' s jn show ?thesis by simp
qed

lemma joinBindings_join_step:
  fixes R :: "'v realm"
  assumes ret: "joinBindings_join R c b b1 b2 st = Inr (r, st')"
    and inv: "leakInv n g1o g2o st"
  shows "leakInv n g1o g2o st' \<and> stateGrows n st st'"
proof -
  obtain g1 rw1 g2 rw2 h where st: "st = (g1, rw1, g2, rw2, h)" by (cases st)
  define l1 where "l1 = (case b1 of None \<Rightarrow> binding_hasLeaked b | Some e \<Rightarrow> hasLeaked e)"
  define l2 where "l2 = (case b2 of None \<Rightarrow> binding_hasLeaked b | Some e \<Rightarrow> hasLeaked e)"
  define v1 where "v1 = (case b1 of None \<Rightarrow> binding_value b | Some e \<Rightarrow> entryValue e)"
  define v2 where "v2 = (case b2 of None \<Rightarrow> binding_value b | Some e \<Rightarrow> entryValue e)"
  note J = joinBindings_join_Inr [OF ret [unfolded st] l1_def l2_def v1_def v2_def]
  from inv have n: "n \<le> length (generatorStore h)"
    and i1: "if rw1 then n \<le> g1 \<and> g1 < length (generatorStore h) else g1 = g1o"
    and i2: "if rw2 then n \<le> g2 \<and> g2 < length (generatorStore h) else g2 = g2o"
    by (simp_all add: leakInv_def st)
  consider (one) "\<not> l1 \<and> l2" | (two) "l1 \<and> \<not> l2" | (none) "\<not> (\<not> l1 \<and> l2) \<and> \<not> (l1 \<and> \<not> l2)"
    by blast
  then show ?thesis
  proof cases
    case one
    with J obtain g' rw' h' where
      L: "joinBindings_leak R b g1 v1 rw1 h = Inr ((g', rw'), h')"
      and s: "st' = (g', rw', g2, rw2, h')"
      by (cases "joinBindings_leak R b g1 v1 rw1 h") auto
    from i1 have "rw1 \<longrightarrow> n \<le> g1 \<and> g1 < length (generatorStore h)" by simp
    from joinBindings_leak_grows [OF L n this] i2 n show ?thesis
      by (auto simp: leakInv_def stateGrows_def st s heapGrows_def)
  next
    case two
    with J obtain g' rw' h' where
      L: "joinBindings_leak R b g2 v2 rw2 h = Inr ((g', rw'), h')"
      and s: "st' = (g1, rw1, g', rw', h')"
      by (cases "joinBindings_leak R b g2 v2 rw2 h") auto
    from i2 have "rw2 \<longrightarrow> n \<le> g2 \<and> g2 < length (generatorStore h)" by simp
    from joinBindings_leak_grows [OF L n this] i1 n show ?thesis
      by (auto simp: leakInv_def stateGrows_def st s heapGrows_def)
  next
    case none
    with J have "st' = st" by (auto simp: st)
    with inv show ?thesis by (simp add: stateGrows_def st heapGrows_refl)
  qed
qed

lemma heapGrows_entries:
  assumes "heapGrows n h h'" "i < length (generatorStore h)"
    and "g_entries (generatorStore h ! i) = orig @ es"
  shows "i < length (generatorStore h')
         \<and> (\<exists>es'. g_entries (generatorStore h' ! i) = orig @ es' \<and> set es \<subseteq> set es')"
proof -
  from assms(1,2) obtain es2 where
    "g_entries (generatorStore h' ! i) = g_entries (generatorStore h ! i) @ es2"
    and "i < length (generatorStore h')"
    by (auto simp: heapGrows_def)
  with assms(3) have "g_entries (generatorStore h' ! i) = orig @ (es @ es2)" by simp
  moreover have "set es \<subseteq> set (es @ es2)" by simp
  ultimately show ?thesis using \<open>i < length (generatorStore h')\<close> by blast
qed

lemma heapGrows_original:
  assumes "heapGrows n h0 h" "i < n"
  shows "generatorStore h ! i = generatorStore h0 ! i"
proof -
  from assms(1) have "take n (generatorStore h) = take n (generatorStore h0)"
    by (simp add: heapGrows_def)
  then have "take n (generatorStore h) ! i = take n (generatorStore h0) ! i" by simp
  with assms(2) show ?thesis by simp
qed

lemma stateGrows_refl: "stateGrows n st st"
  by (cases st) (simp add: stateGrows_def heapGrows_refl)

lemma stateGrows_trans:
  "stateGrows n s1 s2 \<Longrightarrow> stateGrows n s2 s3 \<Longrightarrow> stateGrows n s1 s3"
  by (cases s1; cases s2; cases s3) (auto simp: stateGrows_def intro: heapGrows_trans)

lemma wraps1_mono: "wraps1 orig st \<Longrightarrow> stateGrows n st st' \<Longrightarrow> wraps1 orig st'"
proof -
  assume a: "wraps1 orig st" "stateGrows n st st'"
  obtain g1 rw1 g2 rw2 h where st: "st = (g1, rw1, g2, rw2, h)" by (cases st)
  obtain g1' rw1' g2' rw2' h' where st': "st' = (g1', rw1', g2', rw2', h')" by (cases st')
  from a(1) obtain es where w: "rw1" "g1 < length (generatorStore h)"
    "g_entries (generatorStore h ! g1) = orig @ es"
    by (auto simp: wraps1_def st)
  from a(2) w(1) have g: "heapGrows n h h'" "rw1'" "g1' = g1"
    by (auto simp: stateGrows_def st st')
  from heapGrows_entries [OF g(1) w(2,3)] g show ?thesis
    by (auto simp: wraps1_def st')
qed

lemma wraps2_mono: "wraps2 orig st \<Longrightarrow> stateGrows n st st' \<Longrightarrow> wraps2 orig st'"
proof -
  assume a: "wraps2 orig st" "stateGrows n st st'"
  obtain g1 rw1 g2 rw2 h where st: "st = (g1, rw1, g2, rw2, h)" by (cases st)
  obtain g1' rw1' g2' rw2' h' where st': "st' = (g1', rw1', g2', rw2', h')" by (cases st')
  from a(1) obtain es where w: "rw2" "g2 < length (generatorStore h)"
    "g_entries (generatorStore h ! g2) = orig @ es"
    by (auto simp: wraps2_def st)
  from a(2) w(1) have g: "heapGrows n h h'" "rw2'" "g2' = g2"
    by (auto simp: stateGrows_def st st')
  from heapGrows_entries [OF g(1) w(2,3)] g show ?thesis
    by (auto simp: wraps2_def st')
qed

lemma assigned1_mono: "assigned1 orig b y st \<Longrightarrow> stateGrows n st st' \<Longrightarrow> assigned1 orig b y st'"
proof -
  assume a: "assigned1 orig b y st" "stateGrows n st st'"
  obtain g1 rw1 g2 rw2 h where st: "st = (g1, rw1, g2, rw2, h)" by (cases st)
  obtain g1' rw1' g2' rw2' h' where st': "st' = (g1', rw1', g2', rw2', h')" by (cases st')
  from a(1) obtain es where w: "rw1" "g1 < length (generatorStore h)"
    "g_entries (generatorStore h ! g1) = orig @ es" "BindingAssignment b y \<in> set es"
    by (auto simp: assigned1_def st)
  from a(2) w(1) have g: "heapGrows n h h'" "rw1'" "g1' = g1"
    by (auto simp: stateGrows_def st st')
  from heapGrows_entries [OF g(1) w(2,3)] g w(4) show ?thesis
    by (auto simp: assigned1_def st')
qed

lemma assigned2_mono: "assigned2 orig b y st \<Longrightarrow> stateGrows n st st' \<Longrightarrow> assigned2 orig b y st'"
proof -
  assume a: "assigned2 orig b y st" "stateGrows n st st'"
  obtain g1 rw1 g2 rw2 h where st: "st = (g1, rw1, g2, rw2, h)" by (cases st)
  obtain g1' rw1' g2' rw2' h' where st': "st' = (g1', rw1', g2', rw2', h')" by (cases st')
  from a(1) obtain es where w: "rw2" "g2 < length (generatorStore h)"
    "g_entries (generatorStore h ! g2) = orig @ es" "BindingAssignment b y \<in> set es"
    by (auto simp: assigned2_def st)
  from a(2) w(1) have g: "heapGrows n h h'" "rw2'" "g2' = g2"
    by (auto simp: stateGrows_def st st')
  from heapGrows_entries [OF g(1) w(2,3)] g w(4) show ?thesis
    by (auto simp: assigned2_def st')
qed

lemma joinBindings_join_step_full:
  fixes R :: "'v realm"
  assumes ret: "joinBindings_join R c b b1 b2 st = Inr (r, st')"
    and inv: "joinInv h0 g1o g2o st"
    and valid: "g1o < length (generatorStore h0)" "g2o < length (generatorStore h0)"
    and l1: "l1 = (case b1 of None \<Rightarrow> binding_hasLeaked b | Some e \<Rightarrow> hasLeaked e)"
    and l2: "l2 = (case b2 of None \<Rightarrow> binding_hasLeaked b | Some e \<Rightarrow> hasLeaked e)"
    and v1: "v1 = (case b1 of None \<Rightarrow> binding_value b | Some e \<Rightarrow> entryValue e)"
    and v2: "v2 = (case b2 of None \<Rightarrow> binding_value b | Some e \<Rightarrow> entryValue e)"
  shows "joinInv h0 g1o g2o st' \<and> stateGrows (length (generatorStore h0)) st st'
     \<and> (\<exists>e. r = Some e \<and> hasLeaked e = (l1 \<or> l2) \<and> (l1 \<or> l2 \<longrightarrow> entryValue e = None)
            \<and> (\<forall>e1. b1 = Some e1 \<longrightarrow> previousHasLeaked e = previousHasLeaked e1
                                   \<and> previousValue e = previousValue e1))
     \<and> (l1 \<and> \<not> l2 \<longrightarrow> wraps2 (g_entries (generatorStore h0 ! g2o)) st'
           \<and> (\<forall>y. v2 = Some y \<and> y \<noteq> intrinsics_undefined R \<longrightarrow>
                  assigned2 (g_entries (generatorStore h0 ! g2o)) b y st'))
     \<and> (\<not> l1 \<and> l2 \<longrightarrow> wraps1 (g_entries (generatorStore h0 ! g1o)) st'
           \<and> (\<forall>y. v1 = Some y \<and> y \<noteq> intrinsics_undefined R \<longrightarrow>
                  assigned1 (g_entries (generatorStore h0 ! g1o)) b y st'))"
proof -
  let ?n = "length (generatorStore h0)"
  let ?o1 = "g_entries (generatorStore h0 ! g1o)" and ?o2 = "g_entries (generatorStore h0 ! g2o)"
  obtain g1 rw1 g2 rw2 h where st: "st = (g1, rw1, g2, rw2, h)" by (cases st)
  note J = joinBindings_join_Inr [OF ret [unfolded st] l1 l2 v1 v2]
  from inv have linv: "leakInv ?n g1o g2o st" and hg0: "heapGrows ?n h0 h"
    and w1: "rw1 \<longrightarrow> wraps1 ?o1 st" and w2: "rw2 \<longrightarrow> wraps2 ?o2 st"
    by (simp_all add: joinInv_def st)
  from joinBindings_join_step [OF ret linv] have linv': "leakInv ?n g1o g2o st'"
    and sg: "stateGrows ?n st st'" by simp_all
  from linv have n: "?n \<le> length (generatorStore h)"
    and i1: "if rw1 then ?n \<le> g1 \<and> g1 < length (generatorStore h) else g1 = g1o"
    and i2: "if rw2 then ?n \<le> g2 \<and> g2 < length (generatorStore h) else g2 = g2o"
    by (simp_all add: leakInv_def st)
  obtain g1' rw1' g2' rw2' h' where st': "st' = (g1', rw1', g2', rw2', h')" by (cases st')
  from sg have hg: "heapGrows ?n h h'" by (simp add: stateGrows_def st st')
  have hg0': "heapGrows ?n h0 h'" by (rule heapGrows_trans [OF hg0 hg])
  from J have R: "\<exists>e. r = Some e \<and> hasLeaked e = (l1 \<or> l2) \<and> (l1 \<or> l2 \<longrightarrow> entryValue e = None)
            \<and> (\<forall>e1. b1 = Some e1 \<longrightarrow> previousHasLeaked e = previousHasLeaked e1
                                   \<and> previousValue e = previousValue e1)" by simp
  have pre1: "\<exists>es0. g_entries (generatorStore h ! g1) = ?o1 @ es0"
  proof (cases rw1)
    case True
    with w1 show ?thesis by (auto simp: wraps1_def st)
  next
    case False
    with i1 have "g1 = g1o" by simp
    with heapGrows_original [OF hg0 valid(1)] show ?thesis by simp
  qed
  have pre2: "\<exists>es0. g_entries (generatorStore h ! g2) = ?o2 @ es0"
  proof (cases rw2)
    case True
    with w2 show ?thesis by (auto simp: wraps2_def st)
  next
    case False
    with i2 have "g2 = g2o" by simp
    with heapGrows_original [OF hg0 valid(2)] show ?thesis by simp
  qed
  consider (one) "\<not> l1 \<and> l2" | (two) "l1 \<and> \<not> l2" | (none) "\<not> (\<not> l1 \<and> l2) \<and> \<not> (l1 \<and> \<not> l2)"
    by blast
  then show ?thesis
  proof cases
    case one
    with J obtain g' rw' hh where
      L: "joinBindings_leak R b g1 v1 rw1 h = Inr ((g', rw'), hh)"
      and s: "st' = (g', rw', g2, rw2, hh)"
      by (cases "joinBindings_leak R b g1 v1 rw1 h") auto
    from i1 have "rw1 \<longrightarrow> ?n \<le> g1 \<and> g1 < length (generatorStore h)" by simp
    from joinBindings_leak_grows [OF L n this] obtain es where
      k: "rw'" "g' < length (generatorStore hh)"
      "g_entries (generatorStore hh ! g') = g_entries (generatorStore h ! g1) @ es"
      "\<forall>x. v1 = Some x \<and> x \<noteq> intrinsics_undefined R \<longrightarrow> BindingAssignment b x \<in> set es"
      by blast
    from pre1 obtain es0 where es0: "g_entries (generatorStore h ! g1) = ?o1 @ es0" by blast
    with k(3) have e: "g_entries (generatorStore hh ! g') = ?o1 @ (es0 @ es)" by simp
    have W1: "wraps1 ?o1 st'"
      using k(1,2) e unfolding wraps1_def s by blast
    have A1: "\<forall>y. v1 = Some y \<and> y \<noteq> intrinsics_undefined R \<longrightarrow> assigned1 ?o1 b y st'"
    proof (intro allI impI)
      fix y assume "v1 = Some y \<and> y \<noteq> intrinsics_undefined R"
      with k(4) have "BindingAssignment b y \<in> set (es0 @ es)" by simp
      with k(1,2) e show "assigned1 ?o1 b y st'" unfolding assigned1_def s by blast
    qed
    have W2: "rw2 \<longrightarrow> wraps2 ?o2 st'"
      using w2 wraps2_mono [OF _ sg] by blast
    from W1 W2 linv' hg0' s st' k(1) have "joinInv h0 g1o g2o st'"
      by (simp add: joinInv_def)
    with sg R W1 A1 one show ?thesis by simp
  next
    case two
    with J obtain g' rw' hh where
      L: "joinBindings_leak R b g2 v2 rw2 h = Inr ((g', rw'), hh)"
      and s: "st' = (g1, rw1, g', rw', hh)"
      by (cases "joinBindings_leak R b g2 v2 rw2 h") auto
    from i2 have "rw2 \<longrightarrow> ?n \<le> g2 \<and> g2 < length (generatorStore h)" by simp
    from joinBindings_leak_grows [OF L n this] obtain es where
      k: "rw'" "g' < length (generatorStore hh)"
      "g_entries (generatorStore hh ! g') = g_entries (generatorStore h ! g2) @ es"
      "\<forall>x. v2 = Some x \<and> x \<noteq> intrinsics_undefined R \<longrightarrow> BindingAssignment b x \<in> set es"
      by blast
    from pre2 obtain es0 where es0: "g_entries (generatorStore h ! g2) = ?o2 @ es0" by blast
    with k(3) have e: "g_entries (generatorStore hh ! g') = ?o2 @ (es0 @ es)" by simp
    have W2: "wraps2 ?o2 st'"
      using k(1,2) e unfolding wraps2_def s by blast
    have A2: "\<forall>y. v2 = Some y \<and> y \<noteq> intrinsics_undefined R \<longrightarrow> assigned2 ?o2 b y st'"
    proof (intro allI impI)
      fix y assume "v2 = Some y \<and> y \<noteq> intrinsics_undefined R"
      with k(4) have "BindingAssignment b y \<in> set (es0 @ es)" by simp
      with k(1,2) e show "assigned2 ?o2 b y st'" unfolding assigned2_def s by blast
    qed
    have W1: "rw1 \<longrightarrow> wraps1 ?o1 st'"
      using w1 wraps1_mono [OF _ sg] by blast
    from W1 W2 linv' hg0' s st' k(1) have "joinInv h0 g1o g2o st'"
      by (simp add: joinInv_def)
    with sg R W2 A2 two show ?thesis by simp
  next
    case none
    with J have "st' = st" by (auto simp: st)
    with inv sg R none show ?thesis by auto
  qed
qed

lemma first_loop_general:
  fixes join :: "'k \<Rightarrow> 'a option \<Rightarrow> 'a option \<Rightarrow> 's \<Rightarrow> 'e + ('a option \<times> 's)"
  assumes step0: "\<forall>k a b s r s'. I s \<longrightarrow> join k a b s = Inr (r, s') \<longrightarrow> I s' \<and> G s s'"
    and refl0: "\<forall>s. G s s" and trans0: "\<forall>a b c. G a b \<longrightarrow> G b c \<longrightarrow> G a c"
    and run: "forEach (\<lambda>(key, val1) (m3, s).
            let val2 = mapGet m2 key in
            andThen (join key val1 val2 s) (\<lambda>(val3, s'). Inr (mapSet m3 key val3, s')))
          xs (acc, st) = Inr (m3, st')"
    and I: "I st"
  shows "I st' \<and> G st st'
    \<and> (\<forall>k. k \<notin> set (map fst xs) \<longrightarrow> map_of m3 k = map_of acc k)
    \<and> (distinct (map fst xs) \<longrightarrow>
         (\<forall>k v1. (k, v1) \<in> set xs \<longrightarrow>
            (\<exists>r s0 s1. I s0 \<and> join k v1 (mapGet m2 k) s0 = Inr (r, s1) \<and> G s1 st'
                       \<and> map_of m3 k = Some r)))"
  using run I
proof (induction xs arbitrary: acc st)
  case Nil
  then show ?case by (simp add: refl0)
next
  case (Cons x xs)
  note step = step0 [rule_format] and trans = trans0 [rule_format]
  let ?F = "(\<lambda>(key, val1) (m3, s).
            let val2 = mapGet m2 key in
            andThen (join key val1 val2 s) (\<lambda>(val3, s'). Inr (mapSet m3 key val3, s')))"
  obtain k0 v0 where x: "x = (k0, v0)" by (cases x)
  obtain r0 s1 where j: "join k0 v0 (mapGet m2 k0) st = Inr (r0, s1)"
  proof (cases "join k0 v0 (mapGet m2 k0) st")
    case (Inl a)
    with Cons.prems(1) show ?thesis by (simp add: x)
  next
    case (Inr p)
    with that show ?thesis by (cases p) auto
  qed
  with Cons.prems(1) have rest: "forEach ?F xs (mapSet acc k0 r0, s1) = Inr (m3, st')"
    by (simp add: x)
  from step [OF Cons.prems(2) j] have I1: "I s1" and G1: "G st s1" by simp_all
  note IH = Cons.IH [OF rest I1]
  from IH have a: "I st'" and b: "G s1 st'"
    and c: "\<forall>k. k \<notin> set (map fst xs) \<longrightarrow> map_of m3 k = map_of (mapSet acc k0 r0) k"
    and d: "distinct (map fst xs) \<longrightarrow>
         (\<forall>k v1. (k, v1) \<in> set xs \<longrightarrow>
            (\<exists>r s0 s1. I s0 \<and> join k v1 (mapGet m2 k) s0 = Inr (r, s1) \<and> G s1 st'
                       \<and> map_of m3 k = Some r))"
    by blast+
  have e: "\<forall>k. k \<notin> set (map fst (x # xs)) \<longrightarrow> map_of m3 k = map_of acc k"
    using c by (auto simp: x mapSet_map_of)
  have f: "distinct (map fst (x # xs)) \<longrightarrow>
         (\<forall>k v1. (k, v1) \<in> set (x # xs) \<longrightarrow>
            (\<exists>r s0 s1. I s0 \<and> join k v1 (mapGet m2 k) s0 = Inr (r, s1) \<and> G s1 st'
                       \<and> map_of m3 k = Some r))"
  proof (intro impI allI)
    fix k v1
    assume dist: "distinct (map fst (x # xs))" and mem: "(k, v1) \<in> set (x # xs)"
    show "\<exists>r s0 s1. I s0 \<and> join k v1 (mapGet m2 k) s0 = Inr (r, s1) \<and> G s1 st'
                       \<and> map_of m3 k = Some r"
    proof (cases "(k, v1) = (k0, v0)")
      case True
      with dist have "k \<notin> set (map fst xs)" by (simp add: x)
      with c True have "map_of m3 k = Some r0" by (simp add: mapSet_map_of)
      with True j b Cons.prems(2) show ?thesis by blast
    next
      case False
      with mem have "(k, v1) \<in> set xs" by (auto simp: x)
      with d dist show ?thesis by simp
    qed
  qed
  from a trans [OF G1 b] e f show ?case by blast
qed

lemma second_loop_general:
  fixes join :: "'k \<Rightarrow> 'a option \<Rightarrow> 'a option \<Rightarrow> 's \<Rightarrow> 'e + ('a option \<times> 's)"
  assumes step0: "\<forall>k a b s r s'. I s \<longrightarrow> join k a b s = Inr (r, s') \<longrightarrow> I s' \<and> G s s'"
    and refl0: "\<forall>s. G s s" and trans0: "\<forall>a b c. G a b \<longrightarrow> G b c \<longrightarrow> G a c"
    and run: "forEach (\<lambda>(key, val2) (m3, s).
            if \<not> mapHas m1 key
            then andThen (join key None val2 s) (\<lambda>(val3, s'). Inr (mapSet m3 key val3, s'))
            else Inr (m3, s))
          xs (acc, st) = Inr (m3, st')"
    and I: "I st"
  shows "I st' \<and> G st st' \<and> (\<forall>k. mapHas m1 k \<longrightarrow> map_of m3 k = map_of acc k)"
  using run I
proof (induction xs arbitrary: acc st)
  case Nil
  then show ?case by (simp add: refl0)
next
  case (Cons x xs)
  note step = step0 [rule_format] and trans = trans0 [rule_format]
  let ?F = "(\<lambda>(key, val2) (m3, s).
            if \<not> mapHas m1 key
            then andThen (join key None val2 s) (\<lambda>(val3, s'). Inr (mapSet m3 key val3, s'))
            else Inr (m3, s))"
  obtain k0 v0 where x: "x = (k0, v0)" by (cases x)
  show ?case
  proof (cases "mapHas m1 k0")
    case True
    with Cons.prems(1) have "forEach ?F xs (acc, st) = Inr (m3, st')" by (simp add: x)
    from Cons.IH [OF this Cons.prems(2)] show ?thesis .
  next
    case False
    obtain r0 s1 where j: "join k0 None v0 st = Inr (r0, s1)"
    proof (cases "join k0 None v0 st")
      case (Inl a)
      with Cons.prems(1) False show ?thesis by (simp add: x)
    next
      case (Inr p)
      with that show ?thesis by (cases p) auto
    qed
    with Cons.prems(1) False have rest: "forEach ?F xs (mapSet acc k0 r0, s1) = Inr (m3, st')"
      by (simp add: x)
    from step [OF Cons.prems(2) j] have I1: "I s1" and G1: "G st s1" by simp_all
    from Cons.IH [OF rest I1] have a: "I st'" and b: "G s1 st'"
      and c: "\<forall>k. mapHas m1 k \<longrightarrow> map_of m3 k = map_of (mapSet acc k0 r0) k" by blast+
    from c False have "\<forall>k. mapHas m1 k \<longrightarrow> map_of m3 k = map_of acc k"
      by (auto simp: mapSet_map_of)
    with a trans [OF G1 b] show ?thesis by blast
  qed
qed

lemma joinBindings_run:
  fixes R :: "'v realm"
  assumes ret: "joinBindings R c g1 m1 g2 m2 h = Inr ((g1', g2', joined), h')"
    and valid: "g1 < length (generatorStore h)" "g2 < length (generatorStore h)"
    and dist: "distinct (map fst m1)"
    and mem: "(b, b1) \<in> set m1"
  shows "\<exists>rw1' rw2' r s0 s1.
           joinInv h g1 g2 (g1', rw1', g2', rw2', h')
           \<and> joinInv h g1 g2 s0
           \<and> joinBindings_join R c b b1 (mapGet m2 b) s0 = Inr (r, s1)
           \<and> stateGrows (length (generatorStore h)) s1 (g1', rw1', g2', rw2', h')
           \<and> map_of joined b = Some r"
proof -
  let ?n = "length (generatorStore h)"
  let ?join = "joinBindings_join R c"
  let ?F1 = "(\<lambda>(key, val1) (m3, s).
            let val2 = mapGet m2 key in
            andThen (?join key val1 val2 s) (\<lambda>(val3, s'). Inr (mapSet m3 key val3, s')))"
  let ?F2 = "(\<lambda>(key, val2) (m3, s).
            if \<not> mapHas m1 key
            then andThen (?join key None val2 s) (\<lambda>(val3, s'). Inr (mapSet m3 key val3, s'))
            else Inr (m3, s))"
  let ?st0 = "(g1, False, g2, False, h)"
  have step: "\<forall>k a b s r s'. joinInv h g1 g2 s \<longrightarrow> ?join k a b s = Inr (r, s')
                \<longrightarrow> joinInv h g1 g2 s' \<and> stateGrows ?n s s'"
    using joinBindings_join_step_full [OF _ _ valid refl refl refl refl] by blast
  have grefl: "\<forall>s :: 'v leakState. stateGrows ?n s s"
    by (simp add: stateGrows_refl)
  have gtrans: "\<forall>a b c :: 'v leakState. stateGrows ?n a b \<longrightarrow> stateGrows ?n b c
                  \<longrightarrow> stateGrows ?n a c"
    using stateGrows_trans by blast
  have I0: "joinInv h g1 g2 ?st0"
    by (simp add: joinInv_def leakInv_def heapGrows_refl)
  obtain mid smid where first: "forEach ?F1 m1 ([], ?st0) = Inr (mid, smid)"
  proof (cases "forEach ?F1 m1 ([], ?st0)")
    case (Inl a)
    with ret show ?thesis by (simp add: joinBindings_def joinMaps_def)
  next
    case (Inr p)
    with that show ?thesis by (cases p) auto
  qed
  obtain fin where second: "forEach ?F2 m2 (mid, smid) = Inr (joined, fin)"
    and fin: "fin = (g1', snd fin)" "snd (snd fin) = (g2', snd (snd (snd fin)))"
       "snd (snd (snd (snd fin))) = h'"
  proof (cases "forEach ?F2 m2 (mid, smid)")
    case (Inl a)
    with ret first show ?thesis by (simp add: joinBindings_def joinMaps_def)
  next
    case (Inr p)
    with ret first that show ?thesis
      by (cases p) (auto simp: joinBindings_def joinMaps_def)
  qed
  obtain rw1' rw2' where fin': "fin = (g1', rw1', g2', rw2', h')"
    using fin by (cases fin) auto
  note L1 = first_loop_general [where join = ?join and I = "joinInv h g1 g2"
      and G = "stateGrows ?n", OF step grefl gtrans first I0]
  from L1 have Imid: "joinInv h g1 g2 smid" by blast
  from L1 dist mem obtain r s0 s1 where
    t: "joinInv h g1 g2 s0" "?join b b1 (mapGet m2 b) s0 = Inr (r, s1)"
       "stateGrows ?n s1 smid" "map_of mid b = Some r"
    by blast
  note L2 = second_loop_general [where join = ?join and I = "joinInv h g1 g2"
      and G = "stateGrows ?n", OF step grefl gtrans second Imid]
  from mem have "mapHas m1 b" by (force simp: mapHas_def)
  with L2 t(4) have m: "map_of joined b = Some r" by simp
  from L2 have "joinInv h g1 g2 fin" "stateGrows ?n smid fin" by blast+
  with t stateGrows_trans [OF t(3)] m show ?thesis unfolding fin' by blast
qed

text \<open>
  C3 (as amended).  For a binding \<open>b\<close> with an entry in both maps that has leaked in
  one entry (branch A) and not in the other (branch B): when \<open>joinBindings\<close> returns,
  the joined entry has \<open>hasLeaked\<close> true and the value \<open>undefined\<close>; the generator
  it returns for branch B is a generator created by the call (a wrapper), whose entries
  are the entries of B's generator followed by appended entries, among them the
  assignment to \<open>b\<close> of B's own last value when that value is defined and is not the
  \<open>undefined\<close> value; and no generator that existed before the call is changed, nor
  any effects.  Both orders of the two branches are covered.
\<close>

theorem joinBindings_leak_on_one_side:
  fixes R :: "'v realm"
  assumes ret: "joinBindings R c g1 m1 g2 m2 h = Inr ((g1', g2', joined), h')"
    and valid: "g1 < length (generatorStore h)" "g2 < length (generatorStore h)"
    and dist: "distinct (map fst m1)"
    and mem: "(b, Some e1) \<in> set m1" "mapGet m2 b = Some e2"
  shows
   "effectsStore h' = effectsStore h
    \<and> take (length (generatorStore h)) (generatorStore h') = generatorStore h
    \<and> (hasLeaked e1 \<and> \<not> hasLeaked e2 \<longrightarrow>
         (\<exists>e. map_of joined b = Some (Some e) \<and> hasLeaked e \<and> entryValue e = None)
         \<and> length (generatorStore h) \<le> g2' \<and> g2' < length (generatorStore h')
         \<and> (\<exists>es. g_entries (generatorStore h' ! g2') = g_entries (generatorStore h ! g2) @ es
               \<and> (\<forall>y. entryValue e2 = Some y \<and> y \<noteq> intrinsics_undefined R \<longrightarrow>
                      BindingAssignment b y \<in> set es)))
    \<and> (\<not> hasLeaked e1 \<and> hasLeaked e2 \<longrightarrow>
         (\<exists>e. map_of joined b = Some (Some e) \<and> hasLeaked e \<and> entryValue e = None)
         \<and> length (generatorStore h) \<le> g1' \<and> g1' < length (generatorStore h')
         \<and> (\<exists>es. g_entries (generatorStore h' ! g1') = g_entries (generatorStore h ! g1) @ es
               \<and> (\<forall>y. entryValue e1 = Some y \<and> y \<noteq> intrinsics_undefined R \<longrightarrow>
                      BindingAssignment b y \<in> set es)))"
proof -
  let ?n = "length (generatorStore h)"
  let ?o1 = "g_entries (generatorStore h ! g1)" and ?o2 = "g_entries (generatorStore h ! g2)"
  from joinBindings_run [OF ret valid dist mem(1)] obtain rw1' rw2' r s0 s1 where
    fin: "joinInv h g1 g2 (g1', rw1', g2', rw2', h')"
    and s0: "joinInv h g1 g2 s0"
    and j: "joinBindings_join R c b (Some e1) (Some e2) s0 = Inr (r, s1)"
    and g: "stateGrows ?n s1 (g1', rw1', g2', rw2', h')"
    and m: "map_of joined b = Some r"
    unfolding mem(2) by blast
  from fin have hg: "heapGrows ?n h h'"
    and li: "leakInv ?n g1 g2 (g1', rw1', g2', rw2', h')"
    by (simp_all add: joinInv_def)
  from hg have A: "effectsStore h' = effectsStore h"
    and B: "take ?n (generatorStore h') = generatorStore h"
    by (simp_all add: heapGrows_def)
  note S = joinBindings_join_step_full [OF j s0 valid, of "hasLeaked e1" "hasLeaked e2"
      "entryValue e1" "entryValue e2"]
  from S m have E: "hasLeaked e1 \<or> hasLeaked e2 \<longrightarrow>
      (\<exists>e. map_of joined b = Some (Some e) \<and> hasLeaked e \<and> entryValue e = None)"
    by auto
  have C: "length (generatorStore h) \<le> g2' \<and> g2' < length (generatorStore h')
         \<and> (\<exists>es. g_entries (generatorStore h' ! g2') = ?o2 @ es
               \<and> (\<forall>y. entryValue e2 = Some y \<and> y \<noteq> intrinsics_undefined R \<longrightarrow>
                      BindingAssignment b y \<in> set es))"
    if l: "hasLeaked e1 \<and> \<not> hasLeaked e2"
  proof -
    from S l have w: "wraps2 ?o2 s1"
      and a: "\<forall>y. entryValue e2 = Some y \<and> y \<noteq> intrinsics_undefined R \<longrightarrow>
                assigned2 ?o2 b y s1" by simp_all
    from wraps2_mono [OF w g] have w': "rw2'" "g2' < length (generatorStore h')"
      "\<exists>es. g_entries (generatorStore h' ! g2') = ?o2 @ es"
      by (simp_all add: wraps2_def)
    from li w'(1) have n: "?n \<le> g2'" by (simp add: leakInv_def)
    show ?thesis
    proof (cases "\<exists>y. entryValue e2 = Some y \<and> y \<noteq> intrinsics_undefined R")
      case True
      then obtain y where y: "entryValue e2 = Some y" "y \<noteq> intrinsics_undefined R" by blast
      with a have "assigned2 ?o2 b y s1" by simp
      from assigned2_mono [OF this g] obtain es where
        "g_entries (generatorStore h' ! g2') = ?o2 @ es" "BindingAssignment b y \<in> set es"
        by (auto simp: assigned2_def)
      with y n w'(2) show ?thesis by auto
    next
      case False
      with n w' show ?thesis by auto
    qed
  qed
  have D: "length (generatorStore h) \<le> g1' \<and> g1' < length (generatorStore h')
         \<and> (\<exists>es. g_entries (generatorStore h' ! g1') = ?o1 @ es
               \<and> (\<forall>y. entryValue e1 = Some y \<and> y \<noteq> intrinsics_undefined R \<longrightarrow>
                      BindingAssignment b y \<in> set es))"
    if l: "\<not> hasLeaked e1 \<and> hasLeaked e2"
  proof -
    from S l have w: "wraps1 ?o1 s1"
      and a: "\<forall>y. entryValue e1 = Some y \<and> y \<noteq> intrinsics_undefined R \<longrightarrow>
                assigned1 ?o1 b y s1" by simp_all
    from wraps1_mono [OF w g] have w': "rw1'" "g1' < length (generatorStore h')"
      "\<exists>es. g_entries (generatorStore h' ! g1') = ?o1 @ es"
      by (simp_all add: wraps1_def)
    from li w'(1) have n: "?n \<le> g1'" by (simp add: leakInv_def)
    show ?thesis
    proof (cases "\<exists>y. entryValue e1 = Some y \<and> y \<noteq> intrinsics_undefined R")
      case True
      then obtain y where y: "entryValue e1 = Some y" "y \<noteq> intrinsics_undefined R" by blast
      with a have "assigned1 ?o1 b y s1" by simp
      from assigned1_mono [OF this g] obtain es where
        "g_entries (generatorStore h' ! g1') = ?o1 @ es" "BindingAssignment b y \<in> set es"
        by (auto simp: assigned1_def)
      with y n w'(2) show ?thesis by auto
    next
      case False
      with n w' show ?thesis by auto
    qed
  qed
  from A B C D E show ?thesis by blast
qed

lemma sample_leak_join:
  "joinBindings sampleRealm (AbstractValue 0) 0
     [(sampleBinding, Some (sampleEntry True (NumberValue 1 (Finite 1)) None))] 1
     [(sampleBinding, Some (sampleEntry False (NumberValue 2 (Finite 2)) None))]
     sampleGenerators
   = Inr ((0, 2, [(sampleBinding,
                   Some \<lparr>hasLeaked = True, entryValue = None, previousHasLeaked = Some False,
                         previousValue = None\<rparr>)]),
          sampleGeneratorsJoined)"
  by (simp add: joinBindings_def joinMaps_def joinBindings_join_def joinBindings_leak_def
      mapGet_def mapHas_def sampleEntry_def sampleGenerators_def sampleGeneratorsJoined_def
      lookupGenerator_def newGenerator_def generatorEmpty_def appendGenerator_def
      addEntries_def emitBindingAssignment_def sampleRealm_def Let_def)

theorem joinBindings_leak_on_one_side_witness:
  "0 < length (generatorStore sampleGenerators) \<and> 1 < length (generatorStore sampleGenerators)
   \<and> distinct (map fst
        [(sampleBinding, Some (sampleEntry True (NumberValue 1 (Finite 1)) None))])
   \<and> hasLeaked (sampleEntry True (NumberValue 1 (Finite 1)) None)
   \<and> \<not> hasLeaked (sampleEntry False (NumberValue 2 (Finite 2)) None)
   \<and> joinBindings sampleRealm (AbstractValue 0) 0
        [(sampleBinding, Some (sampleEntry True (NumberValue 1 (Finite 1)) None))] 1
        [(sampleBinding, Some (sampleEntry False (NumberValue 2 (Finite 2)) None))]
        sampleGenerators
      = Inr ((0, 2, [(sampleBinding,
                   Some \<lparr>hasLeaked = True, entryValue = None, previousHasLeaked = Some False,
                         previousValue = None\<rparr>)]),
          sampleGeneratorsJoined)
   \<and> take (length (generatorStore sampleGenerators)) (generatorStore sampleGeneratorsJoined)
      = generatorStore sampleGenerators
   \<and> (\<exists>es. g_entries (generatorStore sampleGeneratorsJoined ! 2)
              = g_entries (generatorStore sampleGenerators ! 1) @ es
            \<and> BindingAssignment sampleBinding (NumberValue 2 (Finite 2)) \<in> set es)"
proof -
  let ?e1 = "sampleEntry True (NumberValue 1 (Finite 1)) None"
  let ?e2 = "sampleEntry False (NumberValue 2 (Finite 2)) None"
  have v: "0 < length (generatorStore sampleGenerators)"
    "1 < length (generatorStore sampleGenerators)"
    by (simp_all add: sampleGenerators_def)
  have d: "distinct (map fst [(sampleBinding, Some ?e1)])" by simp
  have m: "(sampleBinding, Some ?e1) \<in> set [(sampleBinding, Some ?e1)]"
    "mapGet [(sampleBinding, Some ?e2)] sampleBinding = Some ?e2"
    by (simp_all add: mapGet_def)
  have l: "hasLeaked ?e1 \<and> \<not> hasLeaked ?e2" by (simp add: sampleEntry_def)
  have y: "entryValue ?e2 = Some (NumberValue 2 (Finite 2))
           \<and> NumberValue 2 (Finite 2) \<noteq> intrinsics_undefined sampleRealm"
    by (simp add: sampleEntry_def sampleRealm_def)
  from joinBindings_leak_on_one_side [OF sample_leak_join v d m] l y v d sample_leak_join
  show ?thesis by auto
qed

text \<open>
  The claim as stated fails: for a binding leaked in the first branch with the last value
  1 and not leaked in the second with the last value 2, the assignment appended for the
  second branch writes 2, the second branch's own value, and no assignment writes 1.
\<close>

theorem joinBindings_leak_assigns_own_value:
  "hasLeaked (sampleEntry True (NumberValue 1 (Finite 1)) None)
   \<and> entryValue (sampleEntry True (NumberValue 1 (Finite 1)) None)
      = Some (NumberValue 1 (Finite 1))
   \<and> \<not> hasLeaked (sampleEntry False (NumberValue 2 (Finite 2)) None)
   \<and> joinBindings sampleRealm (AbstractValue 0) 0
        [(sampleBinding, Some (sampleEntry True (NumberValue 1 (Finite 1)) None))] 1
        [(sampleBinding, Some (sampleEntry False (NumberValue 2 (Finite 2)) None))]
        sampleGenerators
      = Inr ((0, 2, [(sampleBinding,
                   Some \<lparr>hasLeaked = True, entryValue = None, previousHasLeaked = Some False,
                         previousValue = None\<rparr>)]),
          sampleGeneratorsJoined)
   \<and> g_entries (generatorStore sampleGeneratorsJoined ! 2)
      = [ResidualOperation 2, BindingAssignment sampleBinding (NumberValue 2 (Finite 2))]
   \<and> BindingAssignment sampleBinding (NumberValue 1 (Finite 1))
      \<notin> set (g_entries (generatorStore sampleGeneratorsJoined ! 2))"
  using sample_leak_join
  by (simp add: sampleEntry_def sampleGeneratorsJoined_def)

subsection \<open>Prior history of bindings\<close>

lemma forEach_fails:
  "x \<in> set xs \<Longrightarrow> (\<forall>s. \<exists>e. f x s = Inl e) \<Longrightarrow> \<exists>e. forEach f xs s = Inl e"
proof (induction xs arbitrary: s)
  case Nil
  then show ?case by simp
next
  case (Cons y ys)
  show ?case
  proof (cases "f y s")
    case (Inl e)
    then show ?thesis by simp
  next
    case (Inr s')
    with Cons.prems have "x \<in> set ys" by (metis Inl_Inr_False set_ConsD)
    from Cons.IH [OF this Cons.prems(2), of s'] Inr show ?thesis by simp
  qed
qed

lemma joinMaps_fails:
  assumes "(k, v1) \<in> set m1" and "\<forall>s. \<exists>e. join k v1 (mapGet m2 k) s = Inl e"
  shows "\<exists>e. joinMaps m1 m2 join s = Inl e"
proof -
  let ?f = "(\<lambda>(key, val1) (m3, s).
            let val2 = mapGet m2 key in
            andThen (join key val1 val2 s) (\<lambda>(val3, s'). Inr (mapSet m3 key val3, s')))"
  have "\<forall>s. \<exists>e. ?f (k, v1) s = Inl e"
  proof
    fix s :: "('a \<times> 'b option) list \<times> 'c"
    obtain m3 t where s: "s = (m3, t)" by (cases s)
    from assms(2) obtain e where "join k v1 (mapGet m2 k) t = Inl e" by blast
    then show "\<exists>e. ?f (k, v1) s = Inl e" by (simp add: s)
  qed
  from forEach_fails [where f = ?f and s = "([], s)", OF assms(1) this] show ?thesis
    by (auto simp: joinMaps_def)
qed

lemma joinBindings_join_history_mismatch:
  assumes "previousHasLeaked e1 \<noteq> previousHasLeaked e2 \<or> previousValue e1 \<noteq> previousValue e2"
  shows "\<exists>err. joinBindings_join R c b (Some e1) (Some e2) st = Inl err"
  using assms
  by (auto simp: joinBindings_join_def andThen_def Let_def split: prod.splits sum.splits)

lemma joinBindings_join_history_mismatch_invariant:
  assumes "previousHasLeaked e1 \<noteq> previousHasLeaked e2 \<or> previousValue e1 \<noteq> previousValue e2"
    and "hasLeaked e1 = hasLeaked e2"
    and "\<forall>a b. \<exists>v. createFromConditionalOp R c a b = Inr v"
  shows "joinBindings_join R c b (Some e1) (Some e2) st = Inl InvariantViolation"
proof -
  obtain g1 r1 g2 r2 h where st: "st = (g1, r1, g2, r2, h)" by (cases st)
  have jv: "\<exists>r. joinValues R (map_option Val (entryValue e1)) (map_option Val (entryValue e2))
               (getAbstractValue_conditional R c) = Inr (Val r)"
    using assms(3)
    by (cases "entryValue e1"; cases "entryValue e2")
       (auto simp: joinValues_def getAbstractValue_conditional_def andThen_def
          split: sum.splits, (metis Inl_Inr_False sum.inject(2))+)
  then obtain r where "joinValues R (map_option Val (entryValue e1))
      (map_option Val (entryValue e2)) (getAbstractValue_conditional R c) = Inr (Val r)" by blast
  with assms(1,2) show ?thesis
    by (auto simp: joinBindings_join_def st Let_def)
qed

lemma joinBindings_leak_returns:
  assumes "g < length (generatorStore h)"
  shows "\<exists>res. joinBindings_leak R b g v rw h = Inr res"
  using assms
  by (auto simp: joinBindings_leak_def lookupGenerator_def newGenerator_def
      appendGenerator_def addEntries_def emitBindingAssignment_def Let_def nth_append
      split: option.splits)

lemma joinValues_total:
  assumes "\<forall>x y. \<exists>v. createFromConditionalOp R c x y = Inr v"
  shows "\<exists>r. joinValues R (map_option Val v1) (map_option Val v2)
               (getAbstractValue_conditional R c) = Inr (Val r)"
proof -
  from assms obtain v where "createFromConditionalOp R c v1 v2 = Inr v" by blast
  then show ?thesis
    by (cases v1; cases v2) (auto simp: joinValues_def getAbstractValue_conditional_def)
qed

lemma forEach_fails_with:
  assumes "x \<in> set xs" and "I s"
    and "\<forall>s. I s \<longrightarrow> f x s = Inl E"
    and "\<forall>y s. I s \<longrightarrow> f y s = Inl E \<or> (\<exists>s'. f y s = Inr s' \<and> I s')"
  shows "forEach f xs s = Inl E"
  using assms(1,2)
proof (induction xs arbitrary: s)
  case Nil
  then show ?case by simp
next
  case (Cons y ys)
  from assms(4) Cons.prems(2)
  consider "f y s = Inl E" | s' where "f y s = Inr s'" "I s'" by blast
  then show ?case
  proof cases
    case 1
    then show ?thesis by simp
  next
    case 2
    with assms(3) Cons.prems have "x \<in> set ys" by auto
    from Cons.IH [OF this 2(2)] 2(1) show ?thesis by simp
  qed
qed

lemma joinBindings_join_reaches_history:
  fixes R :: "'v realm"
  assumes total: "\<forall>x y. \<exists>v. createFromConditionalOp R c x y = Inr v"
    and g1: "g1 < length (generatorStore h)" and g2: "g2 < length (generatorStore h)"
  shows "\<exists>k. joinBindings_join R c b b1 b2 (g1, rw1, g2, rw2, h) =
     andThen
        (case b1 of
           Some e1 \<Rightarrow>
             (case b2 of
                None \<Rightarrow> Inr (previousHasLeaked e1, previousValue e1)
              | Some e2 \<Rightarrow>
                  if previousHasLeaked e1 = previousHasLeaked e2
                     \<and> previousValue e1 = previousValue e2
                  then Inr (previousHasLeaked e1, previousValue e1)
                  else Inl InvariantViolation)
         | None \<Rightarrow>
             (case b2 of
                Some e2 \<Rightarrow> Inr (previousHasLeaked e2, previousValue e2)
              | None \<Rightarrow> Inr (None, None)))
        (\<lambda>p. Inr (k p))"
proof -
  define l1 where "l1 = (case b1 of None \<Rightarrow> binding_hasLeaked b | Some e \<Rightarrow> hasLeaked e)"
  define l2 where "l2 = (case b2 of None \<Rightarrow> binding_hasLeaked b | Some e \<Rightarrow> hasLeaked e)"
  define v1 where "v1 = (case b1 of None \<Rightarrow> binding_value b | Some e \<Rightarrow> entryValue e)"
  define v2 where "v2 = (case b2 of None \<Rightarrow> binding_value b | Some e \<Rightarrow> entryValue e)"
  let ?leak = "if \<not> l1 \<and> l2 then
           andThen (joinBindings_leak R b g1 v1 rw1 h)
             (\<lambda>((g1', rewritten1'), h'). Inr (g1', rewritten1', g2, rw2, h'))
         else if l1 \<and> \<not> l2 then
           andThen (joinBindings_leak R b g2 v2 rw2 h)
             (\<lambda>((g2', rewritten2'), h'). Inr (g1, rw1, g2', rewritten2', h'))
         else Inr (g1, rw1, g2, rw2, h)"
  let ?join = "if l1 \<or> l2 then Inr None
         else andThen (joinValues R (map_option Val v1) (map_option Val v2)
                         (getAbstractValue_conditional R c))
                (\<lambda>r. case r of Val v \<Rightarrow> Inr (Some v) | Arr a \<Rightarrow> Inl InvariantViolation)"
  let ?prev = "case b1 of
           Some e1 \<Rightarrow>
             (case b2 of
                None \<Rightarrow> Inr (previousHasLeaked e1, previousValue e1)
              | Some e2 \<Rightarrow>
                  if previousHasLeaked e1 = previousHasLeaked e2
                     \<and> previousValue e1 = previousValue e2
                  then Inr (previousHasLeaked e1, previousValue e1)
                  else (Inl InvariantViolation :: 'v error + (bool option \<times> 'v option)))
         | None \<Rightarrow>
             (case b2 of
                Some e2 \<Rightarrow> Inr (previousHasLeaked e2, previousValue e2)
              | None \<Rightarrow> Inr (None, None))"
  have eq: "joinBindings_join R c b b1 b2 (g1, rw1, g2, rw2, h) =
    andThen ?leak (\<lambda>st'. andThen ?join (\<lambda>joined. andThen ?prev
      (\<lambda>(p, q). Inr (Some \<lparr>hasLeaked = l1 \<or> l2, entryValue = joined,
                  previousHasLeaked = p, previousValue = q\<rparr>, st'))))"
    by (simp add: joinBindings_join_def Let_def l1_def l2_def v1_def v2_def)
  have "\<exists>s. ?leak = Inr s"
    using joinBindings_leak_returns [OF g1, of R b v1 rw1]
      joinBindings_leak_returns [OF g2, of R b v2 rw2]
    by (auto simp: split_beta)
  then obtain s where s: "?leak = Inr s" ..
  have "\<exists>j. ?join = Inr j"
    using joinValues_total [OF total, of v1 v2] by auto
  then obtain j where j: "?join = Inr j" ..
  show ?thesis
    unfolding eq s j andThen_simps
    by (rule exI [where x = "\<lambda>(p, q). (Some \<lparr>hasLeaked = l1 \<or> l2, entryValue = j,
                  previousHasLeaked = p, previousValue = q\<rparr>, s)"])
       (simp add: andThen_def split: sum.splits)
qed

lemma joinBindings_join_mismatch_valid:
  fixes R :: "'v realm"
  assumes "previousHasLeaked e1 \<noteq> previousHasLeaked e2 \<or> previousValue e1 \<noteq> previousValue e2"
    and total: "\<forall>x y. \<exists>v. createFromConditionalOp R c x y = Inr v"
    and g1: "g1 < length (generatorStore h)" and g2: "g2 < length (generatorStore h)"
  shows "joinBindings_join R c b (Some e1) (Some e2) (g1, rw1, g2, rw2, h)
         = Inl InvariantViolation"
  using joinBindings_join_reaches_history [OF total g1 g2, of b "Some e1" "Some e2" rw1 rw2]
    assms(1)
  by auto

lemma joinBindings_join_returns_or_invariant:
  fixes R :: "'v realm"
  assumes total: "\<forall>x y. \<exists>v. createFromConditionalOp R c x y = Inr v"
    and g1: "g1 < length (generatorStore h)" and g2: "g2 < length (generatorStore h)"
  shows "joinBindings_join R c b b1 b2 (g1, rw1, g2, rw2, h) = Inl InvariantViolation
         \<or> (\<exists>res. joinBindings_join R c b b1 b2 (g1, rw1, g2, rw2, h) = Inr res)"
  using joinBindings_join_reaches_history [OF total g1 g2, of b b1 b2 rw1 rw2]
  by (auto split: option.splits if_splits simp del: split_paired_Ex)

lemma joinBindings_join_mismatch_leaked:
  fixes R :: "'v realm"
  assumes "previousHasLeaked e1 \<noteq> previousHasLeaked e2 \<or> previousValue e1 \<noteq> previousValue e2"
    and "hasLeaked e1 \<noteq> hasLeaked e2"
    and g1: "g1 < length (generatorStore h)" and g2: "g2 < length (generatorStore h)"
  shows "joinBindings_join R c b (Some e1) (Some e2) (g1, rw1, g2, rw2, h)
         = Inl InvariantViolation"
  using assms(1,2) joinBindings_leak_returns [OF g1, of R b "entryValue e1" rw1]
    joinBindings_leak_returns [OF g2, of R b "entryValue e2" rw2]
  by (auto simp: joinBindings_join_def Let_def split_beta)

lemma joinBindings_join_keeps_valid:
  fixes R :: "'v realm"
  assumes ret: "joinBindings_join R c b b1 b2 st = Inr (r, st')"
    and inv: "leakInv 0 g1o g2o st" and valid: "validGenerators st"
  shows "leakInv 0 g1o g2o st' \<and> validGenerators st'"
proof -
  obtain g1 rw1 g2 rw2 h where st: "st = (g1, rw1, g2, rw2, h)" by (cases st)
  obtain g1' rw1' g2' rw2' h' where st': "st' = (g1', rw1', g2', rw2', h')" by (cases st')
  from joinBindings_join_step [OF ret inv]
  have i: "leakInv 0 g1o g2o st'" and g: "stateGrows 0 st st'" by simp_all
  from g have len: "length (generatorStore h) \<le> length (generatorStore h')"
    and r1: "rw1 \<longrightarrow> rw1' \<and> g1' = g1" and r2: "rw2 \<longrightarrow> rw2' \<and> g2' = g2"
    by (simp_all add: stateGrows_def heapGrows_def st st')
  from inv have o1: "\<not> rw1 \<longrightarrow> g1 = g1o" and o2: "\<not> rw2 \<longrightarrow> g2 = g2o"
    by (simp_all add: leakInv_def st)
  from i have n1: "if rw1' then g1' < length (generatorStore h') else g1' = g1o"
    and n2: "if rw2' then g2' < length (generatorStore h') else g2' = g2o"
    by (simp_all add: leakInv_def st')
  from valid have v: "g1 < length (generatorStore h)" "g2 < length (generatorStore h)"
    by (simp_all add: validGenerators_def st)
  have "g1' < length (generatorStore h')"
    using n1 r1 o1 v(1) len by (cases rw1'; cases rw1) auto
  moreover have "g2' < length (generatorStore h')"
    using n2 r2 o2 v(2) len by (cases rw2'; cases rw2) auto
  ultimately show ?thesis using i by (simp add: validGenerators_def st')
qed

lemma joinMaps_fails_with:
  assumes k: "(k, v1) \<in> set m1" and s: "I s"
    and fail: "\<forall>s. I s \<longrightarrow> join k v1 (mapGet m2 k) s = Inl E"
    and step: "\<forall>key a b s. I s \<longrightarrow> join key a b s = Inl E
                 \<or> (\<exists>r s'. join key a b s = Inr (r, s') \<and> I s')"
  shows "joinMaps m1 m2 join s = Inl E"
proof -
  let ?f = "(\<lambda>(key, val1) (m3, s).
            let val2 = mapGet m2 key in
            andThen (join key val1 val2 s) (\<lambda>(val3, s'). Inr (mapSet m3 key val3, s')))"
  let ?I = "\<lambda>(m3, s). I s"
  have 1: "\<forall>t. ?I t \<longrightarrow> ?f (k, v1) t = Inl E"
    using fail by auto
  have 2: "\<forall>y t. ?I t \<longrightarrow> ?f y t = Inl E \<or> (\<exists>t'. ?f y t = Inr t' \<and> ?I t')"
  proof (intro allI impI)
    fix y :: "'a \<times> 'b option" and t :: "('a \<times> 'b option) list \<times> 'c"
    assume t: "?I t"
    obtain key a where y: "y = (key, a)" by (cases y)
    obtain m3 u where u: "t = (m3, u)" by (cases t)
    from t u have "I u" by simp
    with step consider "join key a (mapGet m2 key) u = Inl E"
      | r s' where "join key a (mapGet m2 key) u = Inr (r, s')" "I s'"
      by blast
    then show "?f y t = Inl E \<or> (\<exists>t'. ?f y t = Inr t' \<and> ?I t')"
      by cases (simp_all add: y u)
  qed
  have "?I ([], s)" using s by simp
  from forEach_fails_with [where f = ?f and I = ?I, OF k this 1 2]
  show ?thesis by (simp add: joinMaps_def)
qed

lemma joinBindings_mismatch_invariant:
  fixes R :: "'v realm"
  assumes k: "(b, Some e1) \<in> set m1" and m2: "mapGet m2 b = Some e2"
    and mismatch: "previousHasLeaked e1 \<noteq> previousHasLeaked e2
                   \<or> previousValue e1 \<noteq> previousValue e2"
    and total: "\<forall>x y. \<exists>v. createFromConditionalOp R c x y = Inr v"
    and g1: "g1 < length (generatorStore h)" and g2: "g2 < length (generatorStore h)"
  shows "joinBindings R c g1 m1 g2 m2 h = Inl InvariantViolation"
proof -
  let ?I = "\<lambda>st. leakInv 0 g1 g2 st \<and> validGenerators st"
  have init: "?I (g1, False, g2, False, h)"
    using g1 g2 by (simp add: leakInv_def validGenerators_def)
  have fail: "\<forall>st. ?I st \<longrightarrow>
        joinBindings_join R c b (Some e1) (mapGet m2 b) st = Inl InvariantViolation"
  proof (intro allI impI)
    fix st :: "'v leakState"
    assume i: "?I st"
    obtain a r1 a' r2 h' where st: "st = (a, r1, a', r2, h')" by (cases st)
    from i have "a < length (generatorStore h')" "a' < length (generatorStore h')"
      by (simp_all add: validGenerators_def st)
    from joinBindings_join_mismatch_valid [OF mismatch total this]
    show "joinBindings_join R c b (Some e1) (mapGet m2 b) st = Inl InvariantViolation"
      by (simp add: m2 st)
  qed
  have step: "\<forall>key x y st. ?I st \<longrightarrow>
        joinBindings_join R c key x y st = Inl InvariantViolation
        \<or> (\<exists>r st'. joinBindings_join R c key x y st = Inr (r, st') \<and> ?I st')"
  proof (intro allI impI)
    fix key x y and st :: "'v leakState"
    assume i: "?I st"
    obtain a r1 a' r2 h' where st: "st = (a, r1, a', r2, h')" by (cases st)
    from i have "a < length (generatorStore h')" "a' < length (generatorStore h')"
      by (simp_all add: validGenerators_def st)
    from joinBindings_join_returns_or_invariant [OF total this, of key x y r1 r2]
    consider "joinBindings_join R c key x y st = Inl InvariantViolation"
      | res where "joinBindings_join R c key x y st = Inr res"
      unfolding st by blast
    then show "joinBindings_join R c key x y st = Inl InvariantViolation
        \<or> (\<exists>r st'. joinBindings_join R c key x y st = Inr (r, st') \<and> ?I st')"
    proof cases
      case 1
      then show ?thesis by simp
    next
      case 2
      obtain r st' where res: "res = (r, st')" by (cases res)
      from joinBindings_join_keeps_valid [OF 2 [unfolded res]] i
      have "?I st'" by blast
      with 2 res show ?thesis by blast
    qed
  qed
  from joinMaps_fails_with [where join = "joinBindings_join R c" and I = ?I
      and ?m2.0 = m2, OF k init fail step]
  show ?thesis by (simp add: joinBindings_def)
qed

text \<open>
  C8.  For a binding with an entry in both maps whose prior-history fields
  \<open>previousHasLeaked\<close>, \<open>previousValue\<close> disagree, \<open>joinBindings\<close> raises and
  returns no joined bindings, whatever the other entries are, and the callback raises on
  that binding in every state.  What is raised is the invariant failure whenever nothing
  else can raise before the invariant is reached: for \<open>joinBindings\<close> on any two maps,
  when the abstraction returns and the two generators are objects of the store; for the
  callback, when the two generator variables name objects of the store and either the
  binding has leaked on one side alone (no value is joined) or the abstraction returns,
  and in any state when both sides agree on \<open>hasLeaked\<close> and the abstraction returns.
\<close>

theorem joinBindings_history_mismatch:
  assumes "(b, Some e1) \<in> set m1" and "mapGet m2 b = Some e2"
    and "previousHasLeaked e1 \<noteq> previousHasLeaked e2 \<or> previousValue e1 \<noteq> previousValue e2"
  shows "(\<exists>err. joinBindings R c g1 m1 g2 m2 h = Inl err)
     \<and> (\<exists>err. joinBindings_join R c b (Some e1) (Some e2) st = Inl err)
     \<and> (hasLeaked e1 = hasLeaked e2 \<and> (\<forall>x y. \<exists>v. createFromConditionalOp R c x y = Inr v) \<longrightarrow>
          joinBindings_join R c b (Some e1) (Some e2) st = Inl InvariantViolation
          \<and> joinBindings R c g1 [(b, Some e1)] g2 [(b, Some e2)] h = Inl InvariantViolation)
     \<and> ((\<forall>x y. \<exists>v. createFromConditionalOp R c x y = Inr v)
          \<and> g1 < length (generatorStore h) \<and> g2 < length (generatorStore h) \<longrightarrow>
          joinBindings R c g1 m1 g2 m2 h = Inl InvariantViolation)
     \<and> (validGenerators st
          \<and> (hasLeaked e1 \<noteq> hasLeaked e2
               \<or> (\<forall>x y. \<exists>v. createFromConditionalOp R c x y = Inr v)) \<longrightarrow>
          joinBindings_join R c b (Some e1) (Some e2) st = Inl InvariantViolation)"
proof (intro conjI impI)
  have "\<forall>s. \<exists>err. joinBindings_join R c b (Some e1) (mapGet m2 b) s = Inl err"
    unfolding assms(2) using joinBindings_join_history_mismatch [OF assms(3)] by blast
  from joinMaps_fails [where join = "joinBindings_join R c" and ?m2.0 = m2
      and s = "(g1, False, g2, False, h)", OF assms(1) this]
  show "\<exists>err. joinBindings R c g1 m1 g2 m2 h = Inl err"
    by (auto simp: joinBindings_def)
  show "\<exists>err. joinBindings_join R c b (Some e1) (Some e2) st = Inl err"
    by (rule joinBindings_join_history_mismatch [OF assms(3)])
next
  assume a: "hasLeaked e1 = hasLeaked e2 \<and> (\<forall>x y. \<exists>v. createFromConditionalOp R c x y = Inr v)"
  then have j: "joinBindings_join R c b (Some e1) (Some e2) s = Inl InvariantViolation" for s
    using joinBindings_join_history_mismatch_invariant [OF assms(3)] by blast
  show "joinBindings_join R c b (Some e1) (Some e2) st = Inl InvariantViolation"
    by (rule j)
  show "joinBindings R c g1 [(b, Some e1)] g2 [(b, Some e2)] h = Inl InvariantViolation"
    by (simp add: joinBindings_def joinMaps_def mapGet_def j)
next
  assume "(\<forall>x y. \<exists>v. createFromConditionalOp R c x y = Inr v)
          \<and> g1 < length (generatorStore h) \<and> g2 < length (generatorStore h)"
  then show "joinBindings R c g1 m1 g2 m2 h = Inl InvariantViolation"
    using joinBindings_mismatch_invariant [OF assms] by blast
next
  assume a: "validGenerators st
          \<and> (hasLeaked e1 \<noteq> hasLeaked e2
               \<or> (\<forall>x y. \<exists>v. createFromConditionalOp R c x y = Inr v))"
  obtain a1 r1 a2 r2 h' where st: "st = (a1, r1, a2, r2, h')" by (cases st)
  from a have v: "a1 < length (generatorStore h')" "a2 < length (generatorStore h')"
    by (simp_all add: validGenerators_def st)
  from a consider "hasLeaked e1 \<noteq> hasLeaked e2"
    | "\<forall>x y. \<exists>v. createFromConditionalOp R c x y = Inr v" by blast
  then show "joinBindings_join R c b (Some e1) (Some e2) st = Inl InvariantViolation"
  proof cases
    case 1
    from joinBindings_join_mismatch_leaked [OF assms(3) 1 v] show ?thesis by (simp add: st)
  next
    case 2
    from joinBindings_join_mismatch_valid [OF assms(3) 2 v] show ?thesis by (simp add: st)
  qed
qed

theorem joinBindings_history_mismatch_witness:
  "(sampleBinding, Some (sampleEntry False (NumberValue 1 (Finite 1)) (Some (ObjectValue 1))))
      \<in> set [(sampleBinding,
                Some (sampleEntry False (NumberValue 1 (Finite 1)) (Some (ObjectValue 1))))]
   \<and> mapGet [(sampleBinding,
               Some (sampleEntry False (NumberValue 2 (Finite 2)) (Some (ObjectValue 2))))]
        sampleBinding
      = Some (sampleEntry False (NumberValue 2 (Finite 2)) (Some (ObjectValue 2)))
   \<and> previousValue (sampleEntry False (NumberValue 1 (Finite 1)) (Some (ObjectValue 1)))
      \<noteq> previousValue (sampleEntry False (NumberValue 2 (Finite 2)) (Some (ObjectValue 2)))
   \<and> hasLeaked (sampleEntry False (NumberValue 1 (Finite 1)) (Some (ObjectValue 1)))
      = hasLeaked (sampleEntry False (NumberValue 2 (Finite 2)) (Some (ObjectValue 2)))
   \<and> (\<forall>x y. \<exists>v. createFromConditionalOp sampleRealm (AbstractValue 0) x y = Inr v)
   \<and> joinBindings sampleRealm (AbstractValue 0) 0
        [(sampleBinding,
          Some (sampleEntry False (NumberValue 1 (Finite 1)) (Some (ObjectValue 1))))]
        1
        [(sampleBinding,
          Some (sampleEntry False (NumberValue 2 (Finite 2)) (Some (ObjectValue 2))))]
        sampleGenerators
      = Inl InvariantViolation
   \<and> (sampleBinding, Some (sampleEntry True (NumberValue 1 (Finite 1)) (Some (ObjectValue 1))))
      \<in> set [(sampleOtherBinding, Some (sampleEntry False (NumberValue 3 (Finite 3)) None)),
              (sampleBinding,
               Some (sampleEntry True (NumberValue 1 (Finite 1)) (Some (ObjectValue 1))))]
   \<and> hasLeaked (sampleEntry True (NumberValue 1 (Finite 1)) (Some (ObjectValue 1)))
      \<noteq> hasLeaked (sampleEntry False (NumberValue 2 (Finite 2)) (Some (ObjectValue 2)))
   \<and> 0 < length (generatorStore sampleGenerators)
   \<and> 1 < length (generatorStore sampleGenerators)
   \<and> validGenerators (0, False, 1, False, sampleGenerators)
   \<and> joinBindings sampleRealm (AbstractValue 0) 0
        [(sampleOtherBinding, Some (sampleEntry False (NumberValue 3 (Finite 3)) None)),
         (sampleBinding,
          Some (sampleEntry True (NumberValue 1 (Finite 1)) (Some (ObjectValue 1))))]
        1
        [(sampleBinding,
          Some (sampleEntry False (NumberValue 2 (Finite 2)) (Some (ObjectValue 2))))]
        sampleGenerators
      = Inl InvariantViolation
   \<and> joinBindings_join raisingRealm (AbstractValue 0) sampleBinding
        (Some (sampleEntry True (NumberValue 1 (Finite 1)) (Some (ObjectValue 1))))
        (Some (sampleEntry False (NumberValue 2 (Finite 2)) (Some (ObjectValue 2))))
        (0, False, 1, False, sampleGenerators)
      = Inl InvariantViolation"
proof -
  let ?e1 = "sampleEntry False (NumberValue 1 (Finite 1)) (Some (ObjectValue 1))"
  let ?e2 = "sampleEntry False (NumberValue 2 (Finite 2)) (Some (ObjectValue 2))"
  let ?l1 = "sampleEntry True (NumberValue 1 (Finite 1)) (Some (ObjectValue 1))"
  let ?m1 = "[(sampleOtherBinding, Some (sampleEntry False (NumberValue 3 (Finite 3)) None)),
              (sampleBinding, Some ?l1)]"
  have a: "(sampleBinding, Some ?e1) \<in> set [(sampleBinding, Some ?e1)]" by simp
  have b: "mapGet [(sampleBinding, Some ?e2)] sampleBinding = Some ?e2"
    by (simp add: mapGet_def)
  have c: "previousHasLeaked ?e1 \<noteq> previousHasLeaked ?e2 \<or> previousValue ?e1 \<noteq> previousValue ?e2"
    by (simp add: sampleEntry_def)
  have d: "hasLeaked ?e1 = hasLeaked ?e2
           \<and> (\<forall>x y. \<exists>v. createFromConditionalOp sampleRealm (AbstractValue 0) x y = Inr v)"
    by (simp add: sampleEntry_def sampleRealm_def)
  have a': "(sampleBinding, Some ?l1) \<in> set ?m1" by simp
  have c': "previousHasLeaked ?l1 \<noteq> previousHasLeaked ?e2 \<or> previousValue ?l1 \<noteq> previousValue ?e2"
    by (simp add: sampleEntry_def)
  have d': "hasLeaked ?l1 \<noteq> hasLeaked ?e2" by (simp add: sampleEntry_def)
  have v: "0 < length (generatorStore sampleGenerators)"
    "1 < length (generatorStore sampleGenerators)"
    "validGenerators (0, False, 1, False, sampleGenerators)"
    by (simp_all add: sampleGenerators_def validGenerators_def)
  note first = joinBindings_history_mismatch [OF a b c, where R = sampleRealm
      and c = "AbstractValue 0" and ?g1.0 = 0 and ?g2.0 = 1 and h = sampleGenerators]
  note second = joinBindings_history_mismatch [OF a' b c', where R = sampleRealm
      and c = "AbstractValue 0" and ?g1.0 = 0 and ?g2.0 = 1 and h = sampleGenerators]
  note third = joinBindings_history_mismatch [OF a' b c', where R = raisingRealm
      and c = "AbstractValue 0" and st = "(0, False, 1, False, sampleGenerators)"]
  from first d have 1: "joinBindings sampleRealm (AbstractValue 0) 0
      [(sampleBinding, Some ?e1)] 1 [(sampleBinding, Some ?e2)] sampleGenerators
      = Inl InvariantViolation" by blast
  from second d v have 2: "joinBindings sampleRealm (AbstractValue 0) 0 ?m1 1
      [(sampleBinding, Some ?e2)] sampleGenerators = Inl InvariantViolation" by blast
  from third d' v have 3: "joinBindings_join raisingRealm (AbstractValue 0) sampleBinding
      (Some ?l1) (Some ?e2) (0, False, 1, False, sampleGenerators) = Inl InvariantViolation"
    by blast
  from a b d a' d' v 1 2 3 show ?thesis by (simp add: sampleEntry_def)
qed

end
